theory Spec2Isabelle
  imports Main
begin

section \<open>The gopv IPC client: data model\<close>

text \<open>
  The client of the mpv JSON IPC protocol is one Go file: a \<open>Client\<close> struct, a writer
  goroutine (\<open>write\<close>), a reader goroutine (\<open>read\<close>) with its \<open>dispatch\<close>, and the public
  calls (\<open>Request\<close>, \<open>RequestSync\<close>, \<open>RequestJSON\<close>, \<open>RegisterListener\<close>,
  \<open>ObserveProperty\<close>, \<open>Close\<close>, ...).

  Each Go function is a HOL function on the client state. What the function reads from its
  environment is an argument: the number \<open>rand.Int()\<close> returned, the result of a
  \<open>conn.Write\<close> or of a \<open>ReadBytes\<close>, the JSON library. What it does to its environment
  is appended to the field \<open>trace\<close>. A Go panic is the result \<open>Inl message\<close> (or
  \<open>Panics message\<close> for a call that may also stay blocked).

  The goroutines are interleaved, not run in parallel: a function body runs as one step,
  so the three mutexes are not modelled. The one place where a body waits for another
  goroutine is the receive on the reply channel in \<open>requestSend\<close>; there the function
  takes as an argument what the other goroutines do in the meantime. The two loops that
  \<open>connectInternal\<close> starts are functions of their own, over the list of what they meet.
\<close>

subsection \<open>Values of type \<open>any\<close>\<close>

text \<open>
  The values a command or a reply carries. \<open>GoFunc\<close> stands for a Go value that
  \<open>encoding/json\<close> cannot encode (a function or a channel).
\<close>

datatype jvalue =
    JNull
  | JBool bool
  | JNumber int
  | JString string
  | JArray "jvalue list"
  | JObject "(string \<times> jvalue) list"
  | GoFunc nat

subsection \<open>Errors\<close>

datatype go_error =
    ErrClosed
  | MpvError string
  | EOF
  | IOError string
  | JSONError string

text \<open>\<open>func (e MpvError) Error() string\<close> and \<open>ErrClosed\<close>'s message.\<close>

fun Error_string :: "go_error \<Rightarrow> string" where
  "Error_string (MpvError status) = ''mpv returned an error: '' @ status"
| "Error_string ErrClosed = ''IPC client is closed''"
| "Error_string EOF = ''EOF''"
| "Error_string (IOError s) = s"
| "Error_string (JSONError s) = s"

type_synonym panic = string

subsection \<open>Channels\<close>

text \<open>
  A Go channel: the values sent and not yet received, its capacity, and whether it has been
  closed. Sending on a closed channel and closing a closed channel panic. Blocking is
  not modelled: a send always deposits its value, and an unbuffered channel is the queue
  of the values handed over on it.
\<close>

record 'a chan =
  buf :: "'a list"
  cap :: nat
  chan_closed :: bool

definition make_chan :: "nat \<Rightarrow> 'a chan" where
  "make_chan n = \<lparr>buf = [], cap = n, chan_closed = False\<rparr>"

definition chan_send :: "'a chan \<Rightarrow> 'a \<Rightarrow> panic + 'a chan" where
  "chan_send ch v =
     (if chan_closed ch then Inl ''send on closed channel''
      else Inr (ch\<lparr>buf := buf ch @ [v]\<rparr>))"

definition chan_close :: "'a chan \<Rightarrow> panic + 'a chan" where
  "chan_close ch =
     (if chan_closed ch then Inl ''close of closed channel''
      else Inr (ch\<lparr>chan_closed := True\<rparr>))"

subsection \<open>The structs\<close>

type_synonym chan_id = nat
type_synonym callback = nat

text \<open>
  \<open>ipcResponse\<close> and \<open>ipcRequest\<close> both have a field \<open>RequestID\<close>; the request's one is
  \<open>reqRequestID\<close> here. \<open>responseChan\<close> is the address of the reply channel in \<open>chans\<close>.
\<close>

record ipcResponse =
  Error :: string
  Data :: jvalue
  RequestID :: int
  Event :: string
  EventData :: "(string \<times> jvalue) list"
  ID :: int

record ipcRequest =
  Command :: "jvalue list"
  reqRequestID :: int
  Async :: bool
  responseChan :: chan_id

text \<open>What a function does to the world outside the \<open>Client\<close> struct, in order.\<close>

datatype effect =
    ConnWrite string
  | ConnClose
  | OnError callback go_error
  | GoObserver callback jvalue
  | GoListener callback "(string \<times> jvalue) list"
  | GoRequest "jvalue list"
  | RegistryInsert int chan_id
  | RegistryDelete int chan_id

text \<open>
  The \<open>Client\<close> struct. A nil map is \<open>None\<close>. \<open>conn\<close> is seen through \<open>ConnWrite\<close> and
  \<open>ConnClose\<close> in the trace. \<open>chans\<close> is the heap of reply channels and \<open>next_chan\<close> the
  next address \<open>make\<close> hands out; \<open>trace\<close> is the log of effects.
\<close>

record Client =
  receiver :: "ipcRequest chan"
  requests :: "(int \<rightharpoonup> ipcRequest) option"
  listeners :: "(string \<rightharpoonup> callback) option"
  observers :: "(int \<rightharpoonup> callback) option"
  onError :: "callback option"
  closed :: bool
  chans :: "chan_id \<Rightarrow> ipcResponse chan"
  next_chan :: chan_id
  trace :: "effect list"

definition connectInternal :: "callback option \<Rightarrow> Client" where
  "connectInternal onErr =
     \<lparr>receiver = make_chan 0,
      requests = None,
      listeners = None,
      observers = None,
      onError = onErr,
      closed = False,
      chans = (\<lambda>_. make_chan 0),
      next_chan = 0,
      trace = []\<rparr>"

definition emit :: "effect \<Rightarrow> Client \<Rightarrow> Client" where
  "emit e c = c\<lparr>trace := trace c @ [e]\<rparr>"

section \<open>The operations\<close>

definition publishError :: "Client \<Rightarrow> go_error \<Rightarrow> Client" where
  "publishError c err =
     (case onError c of
        None \<Rightarrow> c
      | Some f \<Rightarrow> emit (OnError f err) c)"

text \<open>
  \<open>Close\<close>: the flag, then \<open>close(c.receiver)\<close>, then \<open>c.conn.Close()\<close>. A panic of
  \<open>close\<close> ends the call before the connection is touched.
\<close>

definition Close :: "Client \<Rightarrow> panic + Client" where
  "Close c =
     (let c1 = c\<lparr>closed := True\<rparr> in
      case chan_close (receiver c1) of
        Inl p \<Rightarrow> Inl p
      | Inr r \<Rightarrow> Inr (emit ConnClose (c1\<lparr>receiver := r\<rparr>)))"

text \<open>
  \<open>dispatch\<close>: the switch on \<open>response.Event\<close>. The reply case sends on the request's
  channel, closes it and deletes the entry; the other two start the callback in a new
  goroutine.
\<close>

definition dispatch :: "Client \<Rightarrow> ipcResponse \<Rightarrow> panic + Client" where
  "dispatch c response =
     (if Event response = [] then
        (case requests c of
           None \<Rightarrow> Inr c
         | Some m \<Rightarrow>
             (case m (RequestID response) of
                None \<Rightarrow> Inr c
              | Some request \<Rightarrow>
                  (case chan_send (chans c (responseChan request)) response of
                     Inl p \<Rightarrow> Inl p
                   | Inr ch1 \<Rightarrow>
                       (case chan_close ch1 of
                          Inl p \<Rightarrow> Inl p
                        | Inr ch2 \<Rightarrow>
                            Inr (emit (RegistryDelete (RequestID response) (responseChan request))
                                  (c\<lparr>chans := (chans c)(responseChan request := ch2),
                                     requests := Some (m(RequestID response := None))\<rparr>))))))
      else if Event response = ''property-change'' then
        (case observers c of
           None \<Rightarrow> Inr c
         | Some m \<Rightarrow>
             (case m (ID response) of
                Some observer \<Rightarrow> Inr (emit (GoObserver observer (Data response)) c)
              | None \<Rightarrow> Inr c))
      else
        (case listeners c of
           None \<Rightarrow> Inr c
         | Some m \<Rightarrow>
             (case m (Event response) of
                Some listener \<Rightarrow> Inr (emit (GoListener listener (EventData response)) c)
              | None \<Rightarrow> Inr c)))"


subsection \<open>Requests\<close>

text \<open>
  A call that waits for its reply has three outcomes: it returns a value, it panics, or it
  stays blocked on its reply channel. The last two carry no value; all but the panic carry
  the client state.
\<close>

datatype 'a outcome =
    Returns 'a Client
  | Panics panic
  | Blocks Client

text \<open>
  \<open>requestSend\<close>. The call hands the request to the writer and then waits on the reply
  channel. \<open>env\<close> is what the other goroutines (writer, reader) do between the hand-off
  and the wake-up. The receive \<open>response := <-request.responseChan\<close> takes the first
  value of the channel; on an empty open channel the call stays blocked, on an empty
  closed channel it receives nil, and \<open>response.Error\<close> panics.
\<close>

definition requestSend ::
  "(Client \<Rightarrow> panic + Client) \<Rightarrow> Client \<Rightarrow> ipcRequest \<Rightarrow> (go_error + jvalue) outcome" where
  "requestSend env c request =
     (if closed c then Returns (Inl ErrClosed) c
      else
        (case chan_send (receiver c) request of
           Inl p \<Rightarrow> Panics p
         | Inr r \<Rightarrow>
             (case env (c\<lparr>receiver := r\<rparr>) of
                Inl p \<Rightarrow> Panics p
              | Inr c2 \<Rightarrow>
                  (let ch = chans c2 (responseChan request) in
                   case buf ch of
                     [] \<Rightarrow>
                       (if chan_closed ch then Panics ''nil pointer dereference''
                        else Blocks c2)
                   | response # rest \<Rightarrow>
                       (let c3 = c2\<lparr>chans := (chans c2)(responseChan request := ch\<lparr>buf := rest\<rparr>)\<rparr> in
                        if Error response \<noteq> ''success''
                        then Returns (Inl (MpvError (Error response))) c3
                        else Returns (Inr (Data response)) c3)))))"

text \<open>\<open>make(chan *ipcResponse, n)\<close>: a new channel at the next free address.\<close>

definition make_responseChan :: "nat \<Rightarrow> Client \<Rightarrow> chan_id \<times> Client" where
  "make_responseChan n c =
     (next_chan c, c\<lparr>chans := (chans c)(next_chan c := make_chan n), next_chan := Suc (next_chan c)\<rparr>)"

text \<open>\<open>requestInternal\<close>; \<open>rnd\<close> is the value of \<open>rand.Int()\<close>.\<close>

definition requestInternal ::
  "(Client \<Rightarrow> panic + Client) \<Rightarrow> Client \<Rightarrow> jvalue list \<Rightarrow> bool \<Rightarrow> int \<Rightarrow> (go_error + jvalue) outcome" where
  "requestInternal env c command async rnd =
     (case make_responseChan 0 c of
        (ch, c1) \<Rightarrow>
          requestSend env c1
            \<lparr>Command = command, reqRequestID = rnd, Async = async, responseChan = ch\<rparr>)"

definition Request ::
  "(Client \<Rightarrow> panic + Client) \<Rightarrow> Client \<Rightarrow> jvalue list \<Rightarrow> int \<Rightarrow> (go_error + jvalue) outcome" where
  "Request env c command rnd = requestInternal env c command True rnd"

definition RequestSync ::
  "(Client \<Rightarrow> panic + Client) \<Rightarrow> Client \<Rightarrow> jvalue list \<Rightarrow> int \<Rightarrow> (go_error + jvalue) outcome" where
  "RequestSync env c command rnd = requestInternal env c command False rnd"

text \<open>
  \<open>RequestJSON\<close>. \<open>unmarshal\<close> is \<open>json.Unmarshal\<close> into an \<open>ipcRequest\<close>; the
  unexported \<open>responseChan\<close> is not set by it.
\<close>

definition RequestJSON ::
  "(string \<Rightarrow> go_error + ipcRequest) \<Rightarrow> (Client \<Rightarrow> panic + Client) \<Rightarrow> Client \<Rightarrow> string \<Rightarrow> int
     \<Rightarrow> (go_error + jvalue) outcome" where
  "RequestJSON unmarshal env c requestRaw rnd =
     (case unmarshal requestRaw of
        Inl err \<Rightarrow> Returns (Inl err) c
      | Inr request \<Rightarrow>
          (case make_responseChan 1 c of
             (ch, c1) \<Rightarrow>
               requestSend env c1 (request\<lparr>reqRequestID := rnd, responseChan := ch\<rparr>)))"

subsection \<open>Listeners and observers\<close>

text \<open>
  \<open>RegisterListener\<close>: a nil map is made and nothing is requested; a map without the
  event requests \<open>enable_event\<close> first. The final store goes to the map the client has
  at that moment; a store to a nil map panics.
\<close>

definition RegisterListener ::
  "(Client \<Rightarrow> panic + Client) \<Rightarrow> Client \<Rightarrow> string \<Rightarrow> callback \<Rightarrow> int \<Rightarrow> go_error option outcome" where
  "RegisterListener env c event listener rnd =
     (let store = (\<lambda>c'. case listeners c' of
                           None \<Rightarrow> Panics ''assignment to entry in nil map''
                         | Some m \<Rightarrow> Returns None (c'\<lparr>listeners := Some (m(event \<mapsto> listener))\<rparr>)) in
      case listeners c of
        None \<Rightarrow> store (c\<lparr>listeners := Some Map.empty\<rparr>)
      | Some m \<Rightarrow>
          (case m event of
             Some _ \<Rightarrow> store c
           | None \<Rightarrow>
               (case Request env c [JString ''enable_event'', JString event] rnd of
                  Panics p \<Rightarrow> Panics p
                | Blocks c' \<Rightarrow> Blocks c'
                | Returns (Inl err) c' \<Rightarrow> Returns (Some err) c'
                | Returns (Inr _) c' \<Rightarrow> store c')))"

text \<open>\<open>delete\<close> on a nil map does nothing; \<open>go c.Request(...)\<close> starts a goroutine.\<close>

definition UnregisterListener :: "Client \<Rightarrow> string \<Rightarrow> Client" where
  "UnregisterListener c event =
     emit (GoRequest [JString ''disable_event'', JString event])
       (c\<lparr>listeners := map_option (\<lambda>m. m(event := None)) (listeners c)\<rparr>)"

definition ObserveProperty ::
  "(Client \<Rightarrow> panic + Client) \<Rightarrow> Client \<Rightarrow> string \<Rightarrow> callback \<Rightarrow> int \<Rightarrow> int
     \<Rightarrow> (int \<times> go_error option) outcome" where
  "ObserveProperty env c property observer rnd_id rnd =
     (case Request env c [JString ''observe_property'', JNumber rnd_id, JString property] rnd of
        Panics p \<Rightarrow> Panics p
      | Blocks c' \<Rightarrow> Blocks c'
      | Returns (Inl err) c' \<Rightarrow> Returns (0, Some err) c'
      | Returns (Inr _) c' \<Rightarrow>
          (let m = (case observers c' of None \<Rightarrow> Map.empty | Some m \<Rightarrow> m) in
           Returns (rnd_id, None) (c'\<lparr>observers := Some (m(rnd_id \<mapsto> observer))\<rparr>)))"

definition UnobserveProperty :: "Client \<Rightarrow> int \<Rightarrow> Client" where
  "UnobserveProperty c ident =
     emit (GoRequest [JString ''unobserve_property'', JNumber ident])
       (c\<lparr>observers := map_option (\<lambda>m. m(ident := None)) (observers c)\<rparr>)"

subsection \<open>The writer loop\<close>

text \<open>
  The result of one \<open>conn.Write\<close>: all bytes written, or \<open>n\<close> of them and an error.
\<close>

datatype write_result = WriteOk | WriteErr nat go_error

definition conn_Write :: "Client \<Rightarrow> string \<Rightarrow> write_result \<Rightarrow> Client \<times> go_error option" where
  "conn_Write c bytes res =
     (case res of
        WriteOk \<Rightarrow> (emit (ConnWrite bytes) c, None)
      | WriteErr n err \<Rightarrow> (emit (ConnWrite (take n bytes)) c, Some err))"

text \<open>
  One turn of the loop of \<open>write\<close>, for the request \<open>req\<close> just received: marshal,
  register, write the body, write the newline; every failure goes to \<open>publishError\<close> and
  \<open>continue\<close>. \<open>marshal\<close> is \<open>json.Marshal\<close> on an \<open>ipcRequest\<close>; \<open>ws\<close> holds the results
  of the two writes.
\<close>

definition write_one ::
  "(ipcRequest \<Rightarrow> go_error + string) \<Rightarrow> Client \<Rightarrow> ipcRequest \<Rightarrow> write_result \<times> write_result \<Rightarrow> Client" where
  "write_one marshal c req ws =
     (case marshal req of
        Inl err \<Rightarrow> publishError c err
      | Inr body \<Rightarrow>
          (let m = (case requests c of None \<Rightarrow> Map.empty | Some m \<Rightarrow> m);
               c1 = emit (RegistryInsert (reqRequestID req) (responseChan req))
                      (c\<lparr>requests := Some (m(reqRequestID req \<mapsto> req))\<rparr>)
           in case conn_Write c1 body (fst ws) of
                (c2, Some err) \<Rightarrow> publishError c2 err
              | (c2, None) \<Rightarrow>
                  (case conn_Write c2 [CHR 0x0A] (snd ws) of
                     (c3, Some err) \<Rightarrow> publishError c3 err
                   | (c3, None) \<Rightarrow> c3)))"

text \<open>
  How a loop stands when the model stops following it: it has returned, it waits (on an
  empty open channel, or in \<open>ReadBytes\<close>), or it is still running.
\<close>

datatype loop_status = Returned | Waiting | Running

text \<open>
  The loop of \<open>write\<close> (a reserved word of Isar, hence \<open>write_loop\<close>): receive from
  \<open>c.receiver\<close>; on a closed, drained channel return; else one turn. The list gives
  the write results of the successive turns.
\<close>

fun write_loop ::
  "(ipcRequest \<Rightarrow> go_error + string) \<Rightarrow> Client \<Rightarrow> (write_result \<times> write_result) list
     \<Rightarrow> loop_status \<times> Client" where
  "write_loop marshal c [] =
     (case buf (receiver c) of
        [] \<Rightarrow> (if chan_closed (receiver c) then (Returned, c) else (Waiting, c))
      | req # rest \<Rightarrow> (Running, c))"
| "write_loop marshal c (w # ws) =
     (case buf (receiver c) of
        [] \<Rightarrow> (if chan_closed (receiver c) then (Returned, c) else (Waiting, c))
      | req # rest \<Rightarrow>
          write_loop marshal (write_one marshal (c\<lparr>receiver := (receiver c)\<lparr>buf := rest\<rparr>\<rparr>) req w) ws)"

subsection \<open>The reader loop\<close>

text \<open>The result of one \<open>reader.ReadBytes('\n')\<close>: a line, or an error.\<close>

datatype read_result = Line string | ReadErr go_error

text \<open>
  \<open>read\<close>: on \<open>io.EOF\<close> close the client and return; on another error publish it and go
  on; decode the line (\<open>unmarshal\<close> is \<open>swallowjson.UnmarshalWith\<close> into an
  \<open>ipcResponse\<close>), publish a decode error and go on, or dispatch the response.
\<close>

fun read ::
  "(string \<Rightarrow> go_error + ipcResponse) \<Rightarrow> Client \<Rightarrow> read_result list \<Rightarrow> panic + (loop_status \<times> Client)" where
  "read unmarshal c [] = Inr (Waiting, c)"
| "read unmarshal c (ReadErr err # rs) =
     (if err = EOF then
        (case Close c of
           Inl p \<Rightarrow> Inl p
         | Inr c' \<Rightarrow> Inr (Returned, c'))
      else read unmarshal (publishError c err) rs)"
| "read unmarshal c (Line data # rs) =
     (case unmarshal data of
        Inl err \<Rightarrow> read unmarshal (publishError c err) rs
      | Inr response \<Rightarrow>
          (case dispatch c response of
             Inl p \<Rightarrow> Inl p
           | Inr c' \<Rightarrow> read unmarshal c' rs))"

section \<open>The frame codec\<close>

text \<open>
  Modelled from the spec: \<open>json.Marshal\<close> of \<open>encoding/json\<close> and
  \<open>swallowjson.UnmarshalWith\<close> are libraries, not code of this repository. The loops take
  them as the arguments \<open>marshal\<close> and \<open>unmarshal\<close>. For the wire examples of the
  specification they are modelled here, from its section on the wire format and from the
  struct tags of \<open>ipcRequest\<close> and \<open>ipcResponse\<close>: one JSON object per line, the fields
  \<open>command\<close>, \<open>request_id\<close>, \<open>async\<close> going out, in the order of the struct, and
  \<open>error\<close>, \<open>data\<close>, \<open>request_id\<close>, \<open>event\<close>, \<open>id\<close> coming in, every other key
  going to \<open>EventData\<close>.

  The model covers objects, arrays, strings, integers, \<open>true\<close>, \<open>false\<close> and \<open>null\<close>.
  Outside of it are numbers with a fraction or an exponent and \<open>\u\<close> escapes, which the
  decoder below rejects although the library reads them, and the sorting of the keys of a Go
  map, which the encoder below does not do. An empty \<open>Command\<close> is the nil slice of a
  call without arguments, written \<open>null\<close>.
\<close>

subsection \<open>Encoding a request\<close>

function show_nat :: "nat \<Rightarrow> string" where
  "show_nat n =
     (if n < 10 then [char_of (48 + n)]
      else show_nat (n div 10) @ [char_of (48 + n mod 10)])"
  by pat_completeness auto
termination
  by (relation "measure id") auto

definition show_int :: "int \<Rightarrow> string" where
  "show_int i = (if i < 0 then CHR ''-'' # show_nat (nat (- i)) else show_nat (nat i))"

definition hex_digit :: "nat \<Rightarrow> char" where
  "hex_digit d = (if d < 10 then char_of (48 + d) else char_of (87 + d))"

definition escape_char :: "char \<Rightarrow> string" where
  "escape_char ch =
     (let n = (of_char ch :: nat) in
      if ch = CHR 0x22 then [CHR 0x5C, CHR 0x22]
      else if ch = CHR 0x5C then [CHR 0x5C, CHR 0x5C]
      else if ch = CHR 0x0A then [CHR 0x5C, CHR ''n'']
      else if ch = CHR 0x0D then [CHR 0x5C, CHR ''r'']
      else if ch = CHR 0x09 then [CHR 0x5C, CHR ''t'']
      else if n < 32 \<or> ch = CHR ''<'' \<or> ch = CHR ''>'' \<or> ch = CHR ''&''
      then [CHR 0x5C, CHR ''u'', CHR ''0'', CHR ''0'', hex_digit (n div 16), hex_digit (n mod 16)]
      else [ch])"

definition marshal_string :: "string \<Rightarrow> string" where
  "marshal_string s = CHR 0x22 # concat (map escape_char s) @ [CHR 0x22]"

fun join :: "string \<Rightarrow> string list \<Rightarrow> string" where
  "join sep [] = []"
| "join sep [x] = x"
| "join sep (x # y # ys) = x @ sep @ join sep (y # ys)"

fun sequence :: "(go_error + 'a) list \<Rightarrow> go_error + 'a list" where
  "sequence [] = Inr []"
| "sequence (Inl e # _) = Inl e"
| "sequence (Inr x # xs) = (case sequence xs of Inl e \<Rightarrow> Inl e | Inr ys \<Rightarrow> Inr (x # ys))"

fun marshal_value :: "jvalue \<Rightarrow> go_error + string" where
  "marshal_value JNull = Inr ''null''"
| "marshal_value (JBool b) = Inr (if b then ''true'' else ''false'')"
| "marshal_value (JNumber i) = Inr (show_int i)"
| "marshal_value (JString s) = Inr (marshal_string s)"
| "marshal_value (JArray vs) =
     (case sequence (map marshal_value vs) of
        Inl e \<Rightarrow> Inl e
      | Inr ss \<Rightarrow> Inr (''['' @ join '','' ss @ '']''))"
| "marshal_value (JObject kvs) =
     (case sequence (map (\<lambda>(k, v). case marshal_value v of
                                       Inl e \<Rightarrow> Inl e
                                     | Inr s \<Rightarrow> Inr (marshal_string k @ '':'' @ s)) kvs) of
        Inl e \<Rightarrow> Inl e
      | Inr ss \<Rightarrow> Inr (''{'' @ join '','' ss @ ''}''))"
| "marshal_value (GoFunc _) = Inl (JSONError ''json: unsupported type'')"

text \<open>
  Modelled from the spec: \<open>json.Marshal\<close> on an \<open>ipcRequest\<close>, which is not under the
  sources. The outgoing object has the fields \<open>command\<close>, \<open>request_id\<close> and \<open>async\<close>,
  in the order of the struct; \<open>responseChan\<close> is not exported and not written.
\<close>

definition marshal_ipcRequest :: "ipcRequest \<Rightarrow> go_error + string" where
  "marshal_ipcRequest req =
     (case (if Command req = [] then Inr ''null'' else marshal_value (JArray (Command req))) of
        Inl e \<Rightarrow> Inl e
      | Inr cmd \<Rightarrow>
          Inr (''{'' @ marshal_string ''command'' @ '':'' @ cmd @ '','' @
               marshal_string ''request_id'' @ '':'' @ show_int (reqRequestID req) @ '','' @
               marshal_string ''async'' @ '':'' @ (if Async req then ''true'' else ''false'') @ ''}''))"


subsection \<open>Decoding a response\<close>

definition is_ws :: "char \<Rightarrow> bool" where
  "is_ws ch \<longleftrightarrow> ch = CHR '' '' \<or> ch = CHR 0x0A \<or> ch = CHR 0x0D \<or> ch = CHR 0x09"

fun skip_ws :: "string \<Rightarrow> string" where
  "skip_ws [] = []"
| "skip_ws (ch # s) = (if is_ws ch then skip_ws s else ch # s)"

definition is_digit :: "char \<Rightarrow> bool" where
  "is_digit ch \<longleftrightarrow> 48 \<le> (of_char ch :: nat) \<and> (of_char ch :: nat) \<le> 57"

fun parse_digits :: "string \<Rightarrow> nat \<Rightarrow> nat \<times> string" where
  "parse_digits [] acc = (acc, [])"
| "parse_digits (ch # s) acc =
     (if is_digit ch then parse_digits s (10 * acc + (of_char ch - 48)) else (acc, ch # s))"

definition parse_number :: "string \<Rightarrow> (jvalue \<times> string) option" where
  "parse_number s =
     (let neg = (s \<noteq> [] \<and> hd s = CHR ''-'');
          ds = (if neg then tl s else s)
      in if ds = [] \<or> \<not> is_digit (hd ds) then None
         else if hd ds = CHR ''0'' \<and> tl ds \<noteq> [] \<and> is_digit (hd (tl ds)) then None
         else
           (case parse_digits ds 0 of
              (n, r) \<Rightarrow>
                if r \<noteq> [] \<and> (hd r = CHR ''.'' \<or> hd r = CHR ''e'' \<or> hd r = CHR ''E'') then None
                else Some (JNumber (if neg then - int n else int n), r)))"

definition unescape :: "char \<Rightarrow> char option" where
  "unescape e =
     (if e = CHR 0x22 \<or> e = CHR 0x5C \<or> e = CHR ''/'' then Some e
      else if e = CHR ''n'' then Some (CHR 0x0A)
      else if e = CHR ''r'' then Some (CHR 0x0D)
      else if e = CHR ''t'' then Some (CHR 0x09)
      else if e = CHR ''b'' then Some (CHR 0x08)
      else if e = CHR ''f'' then Some (CHR 0x0C)
      else None)"

fun parse_string_body :: "string \<Rightarrow> (string \<times> string) option" where
  "parse_string_body [] = None"
| "parse_string_body [ch] = (if ch = CHR 0x22 then Some ([], []) else None)"
| "parse_string_body (ch # e # s) =
     (if ch = CHR 0x22 then Some ([], e # s)
      else if ch = CHR 0x5C then
        (case unescape e of
           None \<Rightarrow> None
         | Some x \<Rightarrow>
             (case parse_string_body s of
                None \<Rightarrow> None
              | Some (t, r) \<Rightarrow> Some (x # t, r)))
      else if (of_char ch :: nat) < 32 then None
      else
        (case parse_string_body (e # s) of
           None \<Rightarrow> None
         | Some (t, r) \<Rightarrow> Some (ch # t, r)))"

fun strip_prefix :: "string \<Rightarrow> string \<Rightarrow> string option" where
  "strip_prefix [] s = Some s"
| "strip_prefix (p # ps) [] = None"
| "strip_prefix (p # ps) (ch # s) = (if p = ch then strip_prefix ps s else None)"

definition parse_literal :: "string \<Rightarrow> (jvalue \<times> string) option" where
  "parse_literal s =
     (case strip_prefix ''true'' s of
        Some r \<Rightarrow> Some (JBool True, r)
      | None \<Rightarrow>
          (case strip_prefix ''false'' s of
             Some r \<Rightarrow> Some (JBool False, r)
           | None \<Rightarrow>
               (case strip_prefix ''null'' s of
                  Some r \<Rightarrow> Some (JNull, r)
                | None \<Rightarrow> None)))"

fun parse_value :: "nat \<Rightarrow> string \<Rightarrow> (jvalue \<times> string) option"
  and parse_elems :: "nat \<Rightarrow> string \<Rightarrow> (jvalue list \<times> string) option"
  and parse_members :: "nat \<Rightarrow> string \<Rightarrow> ((string \<times> jvalue) list \<times> string) option" where
  "parse_value 0 s = None"
| "parse_value (Suc n) s =
     (case skip_ws s of
        [] \<Rightarrow> None
      | ch # r \<Rightarrow>
          if ch = CHR ''{'' then
            (if skip_ws r \<noteq> [] \<and> hd (skip_ws r) = CHR ''}'' then Some (JObject [], tl (skip_ws r))
             else (case parse_members n r of
                     None \<Rightarrow> None
                   | Some (kvs, r') \<Rightarrow> Some (JObject kvs, r')))
          else if ch = CHR ''['' then
            (if skip_ws r \<noteq> [] \<and> hd (skip_ws r) = CHR '']'' then Some (JArray [], tl (skip_ws r))
             else (case parse_elems n r of
                     None \<Rightarrow> None
                   | Some (vs, r') \<Rightarrow> Some (JArray vs, r')))
          else if ch = CHR 0x22 then
            (case parse_string_body r of
               None \<Rightarrow> None
             | Some (t, r') \<Rightarrow> Some (JString t, r'))
          else if ch = CHR ''-'' \<or> is_digit ch then parse_number (ch # r)
          else parse_literal (ch # r))"
| "parse_elems 0 s = None"
| "parse_elems (Suc n) s =
     (case parse_value n s of
        None \<Rightarrow> None
      | Some (v, r) \<Rightarrow>
          (case skip_ws r of
             [] \<Rightarrow> None
           | ch # r' \<Rightarrow>
               if ch = CHR '']'' then Some ([v], r')
               else if ch = CHR '','' then
                 (case parse_elems n r' of
                    None \<Rightarrow> None
                  | Some (vs, r'') \<Rightarrow> Some (v # vs, r''))
               else None))"
| "parse_members 0 s = None"
| "parse_members (Suc n) s =
     (case skip_ws s of
        [] \<Rightarrow> None
      | q # r0 \<Rightarrow>
          if q \<noteq> CHR 0x22 then None
          else
            (case parse_string_body r0 of
               None \<Rightarrow> None
             | Some (k, r1) \<Rightarrow>
                 (case skip_ws r1 of
                    [] \<Rightarrow> None
                  | colon # r2 \<Rightarrow>
                      if colon \<noteq> CHR '':'' then None
                      else
                        (case parse_value n r2 of
                           None \<Rightarrow> None
                         | Some (v, r3) \<Rightarrow>
                             (case skip_ws r3 of
                                [] \<Rightarrow> None
                              | ch # r4 \<Rightarrow>
                                  if ch = CHR ''}'' then Some ([(k, v)], r4)
                                  else if ch = CHR '','' then
                                    (case parse_members n r4 of
                                       None \<Rightarrow> None
                                     | Some (kvs, r5) \<Rightarrow> Some ((k, v) # kvs, r5))
                                  else None)))))"

definition json_decode :: "string \<Rightarrow> go_error + jvalue" where
  "json_decode s =
     (case parse_value (Suc (length s)) s of
        None \<Rightarrow> Inl (JSONError ''invalid JSON'')
      | Some (v, r) \<Rightarrow>
          if skip_ws r = [] then Inr v
          else Inl (JSONError ''invalid character after top-level value''))"

definition int64_range :: "int \<Rightarrow> bool" where
  "int64_range i \<longleftrightarrow> - (2 ^ 63) \<le> i \<and> i < 2 ^ 63"

definition set_field :: "ipcResponse \<Rightarrow> string \<times> jvalue \<Rightarrow> go_error + ipcResponse" where
  "set_field resp kv =
     (case kv of (k, v) \<Rightarrow>
        if k = ''error'' then
          (case v of
             JString s \<Rightarrow> Inr (resp\<lparr>Error := s\<rparr>)
           | JNull \<Rightarrow> Inr resp
           | _ \<Rightarrow> Inl (JSONError ''json: cannot unmarshal into Go value of type string''))
        else if k = ''data'' then Inr (resp\<lparr>Data := v\<rparr>)
        else if k = ''request_id'' then
          (case v of
             JNumber i \<Rightarrow>
               if int64_range i then Inr (resp\<lparr>RequestID := i\<rparr>)
               else Inl (JSONError ''json: cannot unmarshal number into Go value of type int'')
           | JNull \<Rightarrow> Inr resp
           | _ \<Rightarrow> Inl (JSONError ''json: cannot unmarshal into Go value of type int''))
        else if k = ''event'' then
          (case v of
             JString s \<Rightarrow> Inr (resp\<lparr>Event := s\<rparr>)
           | JNull \<Rightarrow> Inr resp
           | _ \<Rightarrow> Inl (JSONError ''json: cannot unmarshal into Go value of type string''))
        else if k = ''id'' then
          (case v of
             JNumber i \<Rightarrow>
               if int64_range i then Inr (resp\<lparr>ID := i\<rparr>)
               else Inl (JSONError ''json: cannot unmarshal number into Go value of type int'')
           | JNull \<Rightarrow> Inr resp
           | _ \<Rightarrow> Inl (JSONError ''json: cannot unmarshal into Go value of type int''))
        else Inr (resp\<lparr>EventData := filter (\<lambda>p. fst p \<noteq> k) (EventData resp) @ [(k, v)]\<rparr>))"

fun set_fields :: "ipcResponse \<Rightarrow> (string \<times> jvalue) list \<Rightarrow> go_error + ipcResponse" where
  "set_fields resp [] = Inr resp"
| "set_fields resp (kv # kvs) =
     (case set_field resp kv of
        Inl e \<Rightarrow> Inl e
      | Inr resp' \<Rightarrow> set_fields resp' kvs)"

text \<open>
  Modelled from the spec: \<open>swallowjson.UnmarshalWith(response, "EventData", data)\<close>, which
  is not under the sources. The line must be one JSON object; its keys \<open>error\<close>, \<open>data\<close>,
  \<open>request_id\<close>, \<open>event\<close> and \<open>id\<close> fill the fields with these tags, and every other
  key goes to \<open>EventData\<close>.
\<close>

definition unmarshal_ipcResponse :: "string \<Rightarrow> go_error + ipcResponse" where
  "unmarshal_ipcResponse data =
     (case json_decode data of
        Inl e \<Rightarrow> Inl e
      | Inr (JObject kvs) \<Rightarrow>
          set_fields \<lparr>Error = [], Data = JNull, RequestID = 0, Event = [], EventData = [], ID = 0\<rparr> kvs
      | Inr _ \<Rightarrow> Inl (JSONError ''json: cannot unmarshal into Go value of type map''))"


section \<open>Observations and invariants\<close>

text \<open>The value a call returned, if it returned.\<close>

definition returned :: "'a outcome \<Rightarrow> 'a option" where
  "returned out = (case out of Returns v _ \<Rightarrow> Some v | Panics _ \<Rightarrow> None | Blocks _ \<Rightarrow> None)"

text \<open>What \<open>publishError\<close> adds to the trace: a call of \<open>onError\<close>, if there is one.\<close>

definition sink :: "Client \<Rightarrow> go_error \<Rightarrow> effect list" where
  "sink c err = (case onError c of None \<Rightarrow> [] | Some f \<Rightarrow> [OnError f err])"

text \<open>
  A request waits for its reply when it is in the queue of the writer or in the registry.
  Its reply channel then has been made, is open and holds nothing.
\<close>

definition pending_ok :: "Client \<Rightarrow> ipcRequest \<Rightarrow> bool" where
  "pending_ok c q \<longleftrightarrow>
     responseChan q < next_chan c \<and>
     \<not> chan_closed (chans c (responseChan q)) \<and>
     buf (chans c (responseChan q)) = []"

definition registered :: "Client \<Rightarrow> int \<Rightarrow> ipcRequest \<Rightarrow> bool" where
  "registered c k q \<longleftrightarrow> (case requests c of None \<Rightarrow> False | Some m \<Rightarrow> m k = Some q)"

text \<open>
  The invariant of the reply channels: waiting requests have pairwise different channels,
  each of them open and empty, and no channel ever holds more than one reply.
\<close>

definition reply_inv :: "Client \<Rightarrow> bool" where
  "reply_inv c \<longleftrightarrow>
     distinct (map responseChan (buf (receiver c))) \<and>
     (\<forall>q \<in> set (buf (receiver c)). pending_ok c q) \<and>
     (\<forall>k q. registered c k q \<longrightarrow>
        pending_ok c q \<and> responseChan q \<notin> responseChan ` set (buf (receiver c))) \<and>
     (\<forall>k q k' q'. registered c k q \<and> registered c k' q' \<and> responseChan q = responseChan q'
        \<longrightarrow> k = k') \<and>
     (\<forall>ch. length (buf (chans c ch)) \<le> 1)"

text \<open>
  The states a client can be in after a given one: the steps are the pieces of the
  program that run without waiting. A turn of the reader is \<open>dispatch\<close> or
  \<open>publishError\<close>; a turn of the writer is \<open>write_one\<close> on the request at the head of
  the queue; a call hands a request with a new channel to the writer, and later takes its
  reply from the channel; \<open>Close\<close>; the stores to the two callback maps; the start of a
  goroutine.
\<close>

inductive later :: "Client \<Rightarrow> Client \<Rightarrow> bool" where
  stay: "later c c"
| reader_dispatch: "later c c1 \<Longrightarrow> dispatch c1 response = Inr c2 \<Longrightarrow> later c c2"
| report: "later c c1 \<Longrightarrow> later c (publishError c1 err)"
| writer_turn:
    "later c c1 \<Longrightarrow> buf (receiver c1) = req # rest
       \<Longrightarrow> later c (write_one marshal (c1\<lparr>receiver := (receiver c1)\<lparr>buf := rest\<rparr>\<rparr>) req ws)"
| close: "later c c1 \<Longrightarrow> Close c1 = Inr c2 \<Longrightarrow> later c c2"
| alloc: "later c c1 \<Longrightarrow> later c (snd (make_responseChan n c1))"
| hand_off:
    "later c c1 \<Longrightarrow> \<not> closed c1 \<Longrightarrow> responseChan req = next_chan c1
       \<Longrightarrow> chan_send (receiver c1) req = Inr r
       \<Longrightarrow> later c ((snd (make_responseChan n c1))\<lparr>receiver := r\<rparr>)"
| wake:
    "later c c1 \<Longrightarrow> buf (chans c1 ch) = response # rest
       \<Longrightarrow> later c (c1\<lparr>chans := (chans c1)(ch := (chans c1 ch)\<lparr>buf := rest\<rparr>)\<rparr>)"
| set_listeners: "later c c1 \<Longrightarrow> later c (c1\<lparr>listeners := l\<rparr>)"
| set_observers: "later c c1 \<Longrightarrow> later c (c1\<lparr>observers := ob\<rparr>)"
| spawn: "later c c1 \<Longrightarrow> later c (emit (GoRequest command) c1)"

subsection \<open>The wire example\<close>

text \<open>
  The example of the specification: the request \<open>get_property volume\<close> with id 42, its
  reply, and the client once the request has been handed to the writer (\<open>queued_client\<close>)
  and once the writer has sent it (\<open>sent_client\<close>).
\<close>

definition volume_request :: ipcRequest where
  "volume_request =
     \<lparr>Command = [JString ''get_property'', JString ''volume''], reqRequestID = 42,
      Async = False, responseChan = 0\<rparr>"

definition volume_reply :: ipcResponse where
  "volume_reply =
     \<lparr>Error = ''success'', Data = JNumber 50, RequestID = 42, Event = [], EventData = [], ID = 0\<rparr>"

definition queued_client :: Client where
  "queued_client =
     (snd (make_responseChan 0 (connectInternal None)))
       \<lparr>receiver := \<lparr>buf = [volume_request], cap = 0, chan_closed = False\<rparr>\<rparr>"

definition sent_client :: Client where
  "sent_client = snd (write_loop marshal_ipcRequest queued_client [(WriteOk, WriteOk)])"

text \<open>
  The other goroutines while a call waits, in the example: the writer sends what is
  queued, every write succeeding, and then the reader reads the given lines.
\<close>

definition serve :: "string list \<Rightarrow> Client \<Rightarrow> panic + Client" where
  "serve lines c =
     (case write_loop marshal_ipcRequest c
             (replicate (length (buf (receiver c))) (WriteOk, WriteOk)) of
        (st, c1) \<Rightarrow>
          (case read unmarshal_ipcResponse c1 (map Line lines) of
             Inl p \<Rightarrow> Inl p
           | Inr (st', c2) \<Rightarrow> Inr c2))"

section \<open>Replies\<close>

text \<open>
  C4. A caller of \<open>requestSend\<close> (and so of \<open>Request\<close> and \<open>RequestSync\<close>, which only
  build the request) that is handed a reply returns the reply's data when its error field
  is \<open>success\<close>, and otherwise an \<open>MpvError\<close> that carries the error field unchanged.
\<close>

theorem requestSend_reply:
  assumes "\<not> closed c"
    and "chan_send (receiver c) request = Inr r"
    and "env (c\<lparr>receiver := r\<rparr>) = Inr c2"
    and "buf (chans c2 (responseChan request)) = response # rest"
  shows "returned (requestSend env c request) =
           Some (if Error response = ''success'' then Inr (Data response)
                 else Inl (MpvError (Error response))) \<and>
         Request env' c' command rnd =
           requestSend env' (snd (make_responseChan 0 c'))
             \<lparr>Command = command, reqRequestID = rnd, Async = True, responseChan = next_chan c'\<rparr> \<and>
         RequestSync env' c' command rnd =
           requestSend env' (snd (make_responseChan 0 c'))
             \<lparr>Command = command, reqRequestID = rnd, Async = False, responseChan = next_chan c'\<rparr>"
  using assms
  by (simp add: requestSend_def returned_def Let_def Request_def RequestSync_def
        requestInternal_def make_responseChan_def)

theorem requestSend_reply_witness:
  "returned (requestSend
      (\<lambda>c. Inr (c\<lparr>chans := (chans c)(0 := \<lparr>buf = [\<lparr>Error = ''property not found'', Data = JNull,
                RequestID = 42, Event = [], EventData = [], ID = 0\<rparr>], cap = 0, chan_closed = True\<rparr>)\<rparr>))
      (connectInternal None)
      \<lparr>Command = [JString ''get_property'', JString ''volume''], reqRequestID = 42,
        Async = True, responseChan = 0\<rparr>)
   = Some (Inl (MpvError ''property not found''))"
  using requestSend_reply [of "connectInternal None"
      "\<lparr>Command = [JString ''get_property'', JString ''volume''], reqRequestID = 42,
        Async = True, responseChan = 0\<rparr>"
      "\<lparr>buf = [\<lparr>Command = [JString ''get_property'', JString ''volume''], reqRequestID = 42,
        Async = True, responseChan = 0\<rparr>], cap = 0, chan_closed = False\<rparr>"
      "\<lambda>c. Inr (c\<lparr>chans := (chans c)(0 := \<lparr>buf = [\<lparr>Error = ''property not found'', Data = JNull,
                RequestID = 42, Event = [], EventData = [], ID = 0\<rparr>], cap = 0, chan_closed = True\<rparr>)\<rparr>)"
      _
      "\<lparr>Error = ''property not found'', Data = JNull,
                RequestID = 42, Event = [], EventData = [], ID = 0\<rparr>" "[]"]
  by (simp add: connectInternal_def make_chan_def chan_send_def)

section \<open>The invariant of the reply channels\<close>

text \<open>
  \<open>reply_inv\<close> holds of a new client and is kept by every step of \<open>later\<close>; under it
  \<open>dispatch\<close> cannot panic. The loops and the calls of the program go from a state to a
  later one, so it holds in every state the program reaches.
\<close>

lemma reply_inv_connectInternal: "reply_inv (connectInternal onErr)"
  by (simp add: reply_inv_def connectInternal_def make_chan_def pending_ok_def registered_def)

lemma reply_invD_distinct: "reply_inv c \<Longrightarrow> distinct (map responseChan (buf (receiver c)))"
  by (simp add: reply_inv_def)

lemma reply_invD_queue: "reply_inv c \<Longrightarrow> x \<in> set (buf (receiver c)) \<Longrightarrow> pending_ok c x"
  by (simp add: reply_inv_def)

lemma reply_invD_reg: "reply_inv c \<Longrightarrow> registered c k q \<Longrightarrow> pending_ok c q"
  unfolding reply_inv_def by blast

lemma reply_invD_disjoint:
  "reply_inv c \<Longrightarrow> registered c k q \<Longrightarrow> x \<in> set (buf (receiver c))
     \<Longrightarrow> responseChan x \<noteq> responseChan q"
  unfolding reply_inv_def by (metis imageI)

lemma reply_invD_inj:
  "reply_inv c \<Longrightarrow> registered c k q \<Longrightarrow> registered c k' q'
     \<Longrightarrow> responseChan q = responseChan q' \<Longrightarrow> k = k'"
  unfolding reply_inv_def by blast

lemma reply_invD_length: "reply_inv c \<Longrightarrow> length (buf (chans c ch)) \<le> 1"
  by (simp add: reply_inv_def)

lemma reply_invI:
  assumes "distinct (map responseChan (buf (receiver c)))"
    and "\<And>x. x \<in> set (buf (receiver c)) \<Longrightarrow> pending_ok c x"
    and "\<And>k q. registered c k q \<Longrightarrow> pending_ok c q"
    and "\<And>k q x. registered c k q \<Longrightarrow> x \<in> set (buf (receiver c))
           \<Longrightarrow> responseChan x \<noteq> responseChan q"
    and "\<And>k q k' q'. registered c k q \<Longrightarrow> registered c k' q'
           \<Longrightarrow> responseChan q = responseChan q' \<Longrightarrow> k = k'"
    and "\<And>ch. length (buf (chans c ch)) \<le> 1"
  shows "reply_inv c"
  unfolding reply_inv_def
proof (intro conjI allI impI ballI)
  fix k q assume "registered c k q"
  then show "responseChan q \<notin> responseChan ` set (buf (receiver c))"
    using assms(4) by (metis imageE)
qed (use assms in blast)+

lemma reply_inv_cong:
  assumes "buf (receiver c') = buf (receiver c)" and "requests c' = requests c"
    and "chans c' = chans c" and "next_chan c' = next_chan c"
  shows "reply_inv c' = reply_inv c"
  using assms by (simp add: reply_inv_def pending_ok_def registered_def)

lemma reply_inv_emit [simp]: "reply_inv (emit e c) = reply_inv c"
  by (rule reply_inv_cong) (simp_all add: emit_def)

lemma reply_inv_publishError [simp]: "reply_inv (publishError c err) = reply_inv c"
  by (simp add: publishError_def split: option.splits)

lemma reply_inv_Close: "reply_inv c \<Longrightarrow> Close c = Inr c' \<Longrightarrow> reply_inv c'"
proof -
  assume inv: "reply_inv c" and cl: "Close c = Inr c'"
  from cl have "c' = emit ConnClose (c\<lparr>closed := True, receiver := (receiver c)\<lparr>chan_closed := True\<rparr>\<rparr>)"
    by (auto simp: Close_def Let_def chan_close_def split: if_splits)
  moreover have "reply_inv (c\<lparr>closed := True, receiver := (receiver c)\<lparr>chan_closed := True\<rparr>\<rparr>) = reply_inv c"
    by (rule reply_inv_cong) simp_all
  ultimately show ?thesis using inv by simp
qed

lemma reply_inv_dispatch:
  assumes inv: "reply_inv c"
  shows "\<exists>c'. dispatch c response = Inr c' \<and> reply_inv c'"
proof (cases "Event response = [] \<and> (\<exists>q. registered c (RequestID response) q)")
  case False
  then show ?thesis using inv
    by (auto simp: dispatch_def registered_def split: option.splits)
next
  case True
  then obtain m q where m: "requests c = Some m" and q: "m (RequestID response) = Some q"
    and ev: "Event response = []"
    by (auto simp: registered_def split: option.splits)
  let ?ch = "responseChan q"
  let ?c' = "c\<lparr>chans := (chans c)(?ch := (chans c ?ch)\<lparr>buf := [response], chan_closed := True\<rparr>),
               requests := Some (m(RequestID response := None))\<rparr>"
  have reg: "registered c (RequestID response) q"
    using m q by (simp add: registered_def)
  have ok: "pending_ok c q"
    using inv reg by (rule reply_invD_reg)
  then have d: "dispatch c response
      = Inr (emit (RegistryDelete (RequestID response) ?ch) ?c')"
    using m q ev by (simp add: dispatch_def chan_send_def chan_close_def pending_ok_def)
  have reg': "registered ?c' k x \<Longrightarrow> registered c k x \<and> k \<noteq> RequestID response" for k x
    using m by (auto simp: registered_def split: if_splits)
  have other: "registered c k x \<Longrightarrow> k \<noteq> RequestID response \<Longrightarrow> responseChan x \<noteq> ?ch" for k x
    using reply_invD_inj[OF inv, of k x "RequestID response" q] reg by blast
  have pend: "pending_ok c x \<Longrightarrow> responseChan x \<noteq> ?ch \<Longrightarrow> pending_ok ?c' x" for x
    by (simp add: pending_ok_def)
  have "reply_inv ?c'"
  proof (rule reply_invI)
    show "distinct (map responseChan (buf (receiver ?c')))"
      using reply_invD_distinct[OF inv] by simp
  next
    fix x assume "x \<in> set (buf (receiver ?c'))"
    then have x: "x \<in> set (buf (receiver c))" by simp
    show "pending_ok ?c' x"
      using reply_invD_queue[OF inv x] reply_invD_disjoint[OF inv reg x] by (rule pend)
  next
    fix k x assume "registered ?c' k x"
    then have r: "registered c k x" and k: "k \<noteq> RequestID response" using reg' by blast+
    show "pending_ok ?c' x"
      using reply_invD_reg[OF inv r] other[OF r k] by (rule pend)
  next
    fix k x y assume "registered ?c' k x" and "y \<in> set (buf (receiver ?c'))"
    then have "registered c k x" and "y \<in> set (buf (receiver c))" using reg' by simp_all
    then show "responseChan y \<noteq> responseChan x" by (rule reply_invD_disjoint[OF inv])
  next
    fix k x k' x'
    assume "registered ?c' k x" and "registered ?c' k' x'" and "responseChan x = responseChan x'"
    then show "k = k'" using reg' reply_invD_inj[OF inv] by blast
  next
    fix ch
    show "length (buf (chans ?c' ch)) \<le> 1"
      using reply_invD_length[OF inv, of ch] by simp
  qed
  with d show ?thesis by simp
qed


lemma write_one_fields:
  "buf (receiver (write_one marshal c req ws)) = buf (receiver c)"
  "chans (write_one marshal c req ws) = chans c"
  "next_chan (write_one marshal c req ws) = next_chan c"
  "receiver (write_one marshal c req ws) = receiver c"
  "closed (write_one marshal c req ws) = closed c"
  "listeners (write_one marshal c req ws) = listeners c"
  "observers (write_one marshal c req ws) = observers c"
  "onError (write_one marshal c req ws) = onError c"
  by (simp_all add: write_one_def conn_Write_def publishError_def emit_def Let_def
        split: sum.splits option.splits write_result.splits)

lemma write_one_requests:
  "requests (write_one marshal c req ws) =
     (case marshal req of
        Inl err \<Rightarrow> requests c
      | Inr body \<Rightarrow>
          Some ((case requests c of None \<Rightarrow> Map.empty | Some m \<Rightarrow> m)(reqRequestID req \<mapsto> req)))"
  by (simp add: write_one_def conn_Write_def publishError_def emit_def Let_def
        split: sum.splits option.splits write_result.splits)

lemma reply_inv_write_one:
  assumes inv: "reply_inv c" and q: "buf (receiver c) = req # rest"
  shows "reply_inv (write_one marshal (c\<lparr>receiver := (receiver c)\<lparr>buf := rest\<rparr>\<rparr>) req ws)"
proof -
  define c' where "c' = write_one marshal (c\<lparr>receiver := (receiver c)\<lparr>buf := rest\<rparr>\<rparr>) req ws"
  have queue': "buf (receiver c') = rest"
    and chans': "chans c' = chans c"
    and next': "next_chan c' = next_chan c"
    by (simp_all add: c'_def write_one_fields)
  have req_in: "req \<in> set (buf (receiver c))" using q by simp
  have rest_in: "x \<in> set rest \<Longrightarrow> x \<in> set (buf (receiver c))" for x using q by simp
  have dist: "distinct (map responseChan rest)"
    and notin: "responseChan req \<notin> responseChan ` set rest"
    using reply_invD_distinct[OF inv] q by simp_all
  have req_rest: "x \<in> set rest \<Longrightarrow> responseChan x \<noteq> responseChan req" for x
    using notin by (metis imageI)
  have pend: "pending_ok c' x = pending_ok c x" for x
    by (simp add: pending_ok_def chans' next')
  have req_unreg: "\<not> registered c k req" for k
    using reply_invD_disjoint[OF inv _ req_in, of k req] by blast
  have reg': "registered c' k x \<Longrightarrow> (registered c k x \<and> x \<noteq> req) \<or> (x = req \<and> k = reqRequestID req)"
    for k x
  proof -
    assume "registered c' k x"
    then have "registered c k x \<or> (x = req \<and> k = reqRequestID req)"
      by (auto simp: c'_def registered_def write_one_requests
            split: sum.splits option.splits if_splits)
    then show ?thesis using req_unreg by blast
  qed
  have old_req: "registered c k x \<Longrightarrow> responseChan x \<noteq> responseChan req" for k x
    using reply_invD_disjoint[OF inv _ req_in, of k x] by simp
  show ?thesis
    unfolding c'_def[symmetric]
  proof (rule reply_invI)
    show "distinct (map responseChan (buf (receiver c')))"
      using dist by (simp add: queue')
  next
    fix x assume "x \<in> set (buf (receiver c'))"
    then have "x \<in> set (buf (receiver c))" using rest_in by (simp add: queue')
    then show "pending_ok c' x" using reply_invD_queue[OF inv] by (simp add: pend)
  next
    fix k x assume "registered c' k x"
    then have "registered c k x \<or> x = req" using reg' by blast
    then have "pending_ok c x"
      using reply_invD_reg[OF inv] reply_invD_queue[OF inv req_in] by blast
    then show "pending_ok c' x" by (simp add: pend)
  next
    fix k x y assume r: "registered c' k x" and "y \<in> set (buf (receiver c'))"
    then have y: "y \<in> set rest" by (simp add: queue')
    from reg'[OF r] show "responseChan y \<noteq> responseChan x"
    proof
      assume "registered c k x \<and> x \<noteq> req"
      then show ?thesis using reply_invD_disjoint[OF inv _ rest_in[OF y], of k x] by simp
    next
      assume "x = req \<and> k = reqRequestID req"
      then show ?thesis using req_rest[OF y] by simp
    qed
  next
    fix k x k' x'
    assume r: "registered c' k x" and r': "registered c' k' x'"
      and eq: "responseChan x = responseChan x'"
    from reg'[OF r] reg'[OF r'] show "k = k'"
    proof (elim disjE conjE)
      assume "registered c k x" "registered c k' x'"
      then show ?thesis using eq by (rule reply_invD_inj[OF inv])
    next
      assume "registered c k x" "x' = req"
      then show ?thesis using old_req[of k x] eq by simp
    next
      assume "x = req" "registered c k' x'"
      then show ?thesis using old_req[of k' x'] eq by simp
    next
      assume "k = reqRequestID req" "k' = reqRequestID req"
      then show ?thesis by simp
    qed
  next
    fix ch
    show "length (buf (chans c' ch)) \<le> 1"
      using reply_invD_length[OF inv, of ch] by (simp add: chans')
  qed
qed

lemma later_trans: "later b c \<Longrightarrow> later a b \<Longrightarrow> later a c"
  by (induction rule: later.induct) (auto intro: later.intros)

lemma closed_emit [simp]: "closed (emit e c) = closed c"
  by (simp add: emit_def)

lemma closed_publishError [simp]: "closed (publishError c err) = closed c"
  by (simp add: publishError_def split: option.splits)

lemma dispatch_fields:
  "dispatch c response = Inr c' \<Longrightarrow>
     closed c' = closed c \<and> receiver c' = receiver c \<and> listeners c' = listeners c \<and>
     observers c' = observers c \<and> onError c' = onError c \<and> next_chan c' = next_chan c"
proof -
  assume d: "dispatch c response = Inr c'"
  consider (reply) "Event response = []"
    | (change) "Event response \<noteq> []" "Event response = ''property-change''"
    | (named) "Event response \<noteq> []" "Event response \<noteq> ''property-change''"
    by blast
  then show ?thesis
  proof cases
    case reply
    then show ?thesis using d
      by (simp add: dispatch_def chan_send_def chan_close_def emit_def
            split: option.splits sum.splits if_splits) auto
  next
    case change
    then show ?thesis using d
      by (simp add: dispatch_def emit_def split: option.splits) auto
  next
    case named
    then show ?thesis using d
      by (simp add: dispatch_def emit_def split: option.splits) auto
  qed
qed

lemma closed_dispatch: "dispatch c response = Inr c' \<Longrightarrow> closed c' = closed c"
  by (simp add: dispatch_fields)

lemma closed_Close: "Close c = Inr c' \<Longrightarrow> closed c'"
  by (auto simp: Close_def Let_def chan_close_def emit_def split: if_splits)

lemma closed_later: "later c c' \<Longrightarrow> closed c \<Longrightarrow> closed c'"
  by (induction rule: later.induct)
     (auto simp: closed_dispatch closed_Close write_one_fields make_responseChan_def)

lemma reply_inv_make_responseChan:
  assumes inv: "reply_inv c"
  shows "reply_inv (snd (make_responseChan n c))"
proof -
  define c' where "c' = snd (make_responseChan n c)"
  have f: "buf (receiver c') = buf (receiver c)" "requests c' = requests c"
    "next_chan c' = Suc (next_chan c)"
    "chans c' = (chans c)(next_chan c := make_chan n)"
    by (simp_all add: c'_def make_responseChan_def)
  have reg: "registered c' k q = registered c k q" for k q
    by (simp add: registered_def f)
  have pend: "pending_ok c q \<Longrightarrow> pending_ok c' q" for q
    by (auto simp: pending_ok_def f)
  show ?thesis
    unfolding c'_def[symmetric]
  proof (rule reply_invI)
    show "distinct (map responseChan (buf (receiver c')))"
      using reply_invD_distinct[OF inv] by (simp add: f)
  next
    fix x assume "x \<in> set (buf (receiver c'))"
    then show "pending_ok c' x" using reply_invD_queue[OF inv, of x] pend by (simp add: f)
  next
    fix k q assume "registered c' k q"
    then show "pending_ok c' q" using reply_invD_reg[OF inv, of k q] pend by (simp add: reg)
  next
    fix k q x assume "registered c' k q" "x \<in> set (buf (receiver c'))"
    then show "responseChan x \<noteq> responseChan q"
      using reply_invD_disjoint[OF inv, of k q x] by (simp add: reg f)
  next
    fix k q k' q'
    assume "registered c' k q" "registered c' k' q'" "responseChan q = responseChan q'"
    then show "k = k'" using reply_invD_inj[OF inv, of k q k' q'] by (simp add: reg)
  next
    fix ch show "length (buf (chans c' ch)) \<le> 1"
      using reply_invD_length[OF inv, of ch] by (simp add: f make_chan_def)
  qed
qed

lemma reply_inv_hand_off:
  assumes inv: "reply_inv c" and ch: "responseChan req = next_chan c"
    and send: "chan_send (receiver c) req = Inr r"
  shows "reply_inv ((snd (make_responseChan n c))\<lparr>receiver := r\<rparr>)"
proof -
  define c' where "c' = (snd (make_responseChan n c))\<lparr>receiver := r\<rparr>"
  have r: "buf r = buf (receiver c) @ [req]"
    using send by (auto simp: chan_send_def split: if_splits)
  have f: "buf (receiver c') = buf (receiver c) @ [req]" "requests c' = requests c"
    "next_chan c' = Suc (next_chan c)"
    "chans c' = (chans c)(next_chan c := make_chan n)"
    by (simp_all add: c'_def make_responseChan_def r)
  have reg: "registered c' k q = registered c k q" for k q
    by (simp add: registered_def f)
  have pend: "pending_ok c q \<Longrightarrow> pending_ok c' q" for q
    by (auto simp: pending_ok_def f)
  have below: "pending_ok c q \<Longrightarrow> responseChan q \<noteq> responseChan req" for q
    by (simp add: pending_ok_def ch)
  have new: "pending_ok c' req"
    by (simp add: pending_ok_def f ch make_chan_def)
  show ?thesis
    unfolding c'_def[symmetric]
  proof (rule reply_invI)
    have "responseChan req \<notin> responseChan ` set (buf (receiver c))"
      using reply_invD_queue[OF inv] below by (metis imageE)
    then show "distinct (map responseChan (buf (receiver c')))"
      using reply_invD_distinct[OF inv] by (simp add: f)
  next
    fix x assume "x \<in> set (buf (receiver c'))"
    then have "x \<in> set (buf (receiver c)) \<or> x = req" by (auto simp: f)
    then show "pending_ok c' x" using reply_invD_queue[OF inv, of x] pend new by blast
  next
    fix k q assume "registered c' k q"
    then show "pending_ok c' q" using reply_invD_reg[OF inv, of k q] pend by (simp add: reg)
  next
    fix k q x assume a: "registered c' k q" "x \<in> set (buf (receiver c'))"
    then have "x \<in> set (buf (receiver c)) \<or> x = req" by (auto simp: f)
    then show "responseChan x \<noteq> responseChan q"
    proof
      assume "x \<in> set (buf (receiver c))"
      then show ?thesis using reply_invD_disjoint[OF inv, of k q x] a by (simp add: reg)
    next
      assume "x = req"
      then show ?thesis using below[of q] reply_invD_reg[OF inv, of k q] a
        by (simp add: reg)
    qed
  next
    fix k q k' q'
    assume "registered c' k q" "registered c' k' q'" "responseChan q = responseChan q'"
    then show "k = k'" using reply_invD_inj[OF inv, of k q k' q'] by (simp add: reg)
  next
    fix ch show "length (buf (chans c' ch)) \<le> 1"
      using reply_invD_length[OF inv, of ch] by (simp add: f make_chan_def)
  qed
qed

lemma reply_inv_wake:
  assumes inv: "reply_inv c" and b: "buf (chans c ch) = response # rest"
  shows "reply_inv (c\<lparr>chans := (chans c)(ch := (chans c ch)\<lparr>buf := rest\<rparr>)\<rparr>)"
proof -
  define c' where "c' = c\<lparr>chans := (chans c)(ch := (chans c ch)\<lparr>buf := rest\<rparr>)\<rparr>"
  have f: "buf (receiver c') = buf (receiver c)" "requests c' = requests c"
    "next_chan c' = next_chan c"
    "chans c' = (chans c)(ch := (chans c ch)\<lparr>buf := rest\<rparr>)"
    by (simp_all add: c'_def)
  have reg: "registered c' k q = registered c k q" for k q
    by (simp add: registered_def f)
  have pend: "pending_ok c q \<Longrightarrow> pending_ok c' q" for q
    using b by (auto simp: pending_ok_def f)
  show ?thesis
    unfolding c'_def[symmetric]
  proof (rule reply_invI)
    show "distinct (map responseChan (buf (receiver c')))"
      using reply_invD_distinct[OF inv] by (simp add: f)
  next
    fix x assume "x \<in> set (buf (receiver c'))"
    then show "pending_ok c' x" using reply_invD_queue[OF inv, of x] pend by (simp add: f)
  next
    fix k q assume "registered c' k q"
    then show "pending_ok c' q" using reply_invD_reg[OF inv, of k q] pend by (simp add: reg)
  next
    fix k q x assume "registered c' k q" "x \<in> set (buf (receiver c'))"
    then show "responseChan x \<noteq> responseChan q"
      using reply_invD_disjoint[OF inv, of k q x] by (simp add: reg f)
  next
    fix k q k' q'
    assume "registered c' k q" "registered c' k' q'" "responseChan q = responseChan q'"
    then show "k = k'" using reply_invD_inj[OF inv, of k q k' q'] by (simp add: reg)
  next
    fix ch' show "length (buf (chans c' ch')) \<le> 1"
      using reply_invD_length[OF inv, of ch'] reply_invD_length[OF inv, of ch] b
      by (simp add: f)
  qed
qed

lemma reply_inv_later: "later c c' \<Longrightarrow> reply_inv c \<Longrightarrow> reply_inv c'"
proof (induction rule: later.induct)
  case (reader_dispatch c c1 response c2)
  then show ?case using reply_inv_dispatch[of c1 response] by auto
next
  case (writer_turn c c1 req rest marshal ws)
  then show ?case by (simp add: reply_inv_write_one)
next
  case (close c c1 c2)
  then show ?case by (simp add: reply_inv_Close)
next
  case (alloc c c1 n)
  then show ?case by (simp add: reply_inv_make_responseChan)
next
  case (hand_off c c1 req r n)
  then show ?case by (simp add: reply_inv_hand_off)
next
  case (wake c c1 ch response rest)
  then show ?case by (simp add: reply_inv_wake)
next
  case (set_listeners c c1 l)
  then show ?case
    using reply_inv_cong[of "c1\<lparr>listeners := l\<rparr>" c1] by simp
next
  case (set_observers c c1 ob)
  then show ?case
    using reply_inv_cong[of "c1\<lparr>observers := ob\<rparr>" c1] by simp
qed simp_all


text \<open>The loops and the calls are made of steps of \<open>later\<close>.\<close>

lemma later_write_loop: "write_loop marshal c ws = (st, c') \<Longrightarrow> later c c'"
proof (induction ws arbitrary: c)
  case Nil
  then show ?case by (auto split: list.splits if_splits intro: later.stay)
next
  case (Cons w ws)
  show ?case
  proof (cases "buf (receiver c)")
    case Nil
    then show ?thesis using Cons.prems by (auto split: if_splits intro: later.stay)
  next
    case (Cons req rest)
    let ?c1 = "write_one marshal (c\<lparr>receiver := (receiver c)\<lparr>buf := rest\<rparr>\<rparr>) req w"
    have "later c ?c1" using Cons by (rule later.writer_turn[OF later.stay])
    moreover have "later ?c1 c'" using Cons.prems Cons by (intro Cons.IH) simp
    ultimately show ?thesis by (rule later_trans[rotated])
  qed
qed

lemma later_read: "read unmarshal c rs = Inr (st, c') \<Longrightarrow> later c c'"
proof (induction unmarshal c rs rule: read.induct)
  case (1 unmarshal c)
  then show ?case by (simp add: later.stay)
next
  case (2 unmarshal c err rs)
  show ?case
  proof (cases "err = EOF")
    case True
    then show ?thesis using 2
      by (auto split: sum.splits intro: later.close later.stay)
  next
    case False
    then have "later (publishError c err) c'" using 2 by simp
    then show ?thesis using later.report[OF later.stay] by (rule later_trans)
  qed
next
  case (3 unmarshal c data rs)
  show ?case
  proof (cases "unmarshal data")
    case (Inl err)
    then have "later (publishError c err) c'" using 3 by simp
    then show ?thesis using later.report[OF later.stay] by (rule later_trans)
  next
    case (Inr response)
    then obtain c1 where d: "dispatch c response = Inr c1" and "read unmarshal c1 rs = Inr (st, c')"
      using 3(3) by (auto split: sum.splits)
    then have "later c1 c'" using 3(2) Inr by simp
    then show ?thesis using later.reader_dispatch[OF later.stay d] by (rule later_trans)
  qed
qed

lemma later_requestSend:
  assumes env: "\<And>x y. env x = Inr y \<Longrightarrow> later x y"
    and ch: "responseChan request = next_chan c"
    and res: "requestSend env (snd (make_responseChan n c)) request = Returns v c' \<or>
              requestSend env (snd (make_responseChan n c)) request = Blocks c'"
  shows "later c c'"
proof (cases "closed c")
  case True
  then have "c' = snd (make_responseChan n c)"
    using res by (simp add: requestSend_def make_responseChan_def)
  then show ?thesis by (simp add: later.alloc later.stay)
next
  case False
  let ?c1 = "snd (make_responseChan n c)"
  have nc: "\<not> closed ?c1" and rc: "receiver ?c1 = receiver c"
    using False by (simp_all add: make_responseChan_def)
  obtain r where r: "chan_send (receiver c) request = Inr r"
    using res nc rc by (cases "chan_send (receiver c) request") (simp_all add: requestSend_def)
  obtain c2 where c2: "env (?c1\<lparr>receiver := r\<rparr>) = Inr c2"
    using res nc rc r by (cases "env (?c1\<lparr>receiver := r\<rparr>)") (simp_all add: requestSend_def)
  have l1: "later c (?c1\<lparr>receiver := r\<rparr>)"
    using later.hand_off[OF later.stay False ch r] .
  have l2: "later c c2"
    using env[OF c2] l1 by (rule later_trans)
  show ?thesis
  proof (cases "buf (chans c2 (responseChan request))")
    case Nil
    then have "c' = c2"
      using res nc rc r c2 by (simp add: requestSend_def Let_def split: if_splits)
    then show ?thesis using l2 by simp
  next
    case (Cons response rest)
    then have "c' = c2\<lparr>chans := (chans c2)(responseChan request :=
                 (chans c2 (responseChan request))\<lparr>buf := rest\<rparr>)\<rparr>"
      using res nc rc r c2 by (simp add: requestSend_def Let_def split: if_splits)
    then show ?thesis using later.wake[OF l2 Cons] by simp
  qed
qed

lemma later_requestInternal:
  assumes "\<And>x y. env x = Inr y \<Longrightarrow> later x y"
    and "requestInternal env c command async rnd = Returns v c' \<or>
         requestInternal env c command async rnd = Blocks c'"
  shows "later c c'"
proof (rule later_requestSend[where env = env and n = 0 and v = v])
  show "responseChan \<lparr>Command = command, reqRequestID = rnd, Async = async,
                      responseChan = next_chan c\<rparr> = next_chan c"
    by simp
  show "requestSend env (snd (make_responseChan 0 c))
          \<lparr>Command = command, reqRequestID = rnd, Async = async, responseChan = next_chan c\<rparr>
        = Returns v c' \<or>
        requestSend env (snd (make_responseChan 0 c))
          \<lparr>Command = command, reqRequestID = rnd, Async = async, responseChan = next_chan c\<rparr>
        = Blocks c'"
    using assms(2) by (simp add: requestInternal_def make_responseChan_def)
qed (rule assms(1))

lemma later_RequestJSON:
  assumes "\<And>x y. env x = Inr y \<Longrightarrow> later x y"
    and "RequestJSON unmarshal env c requestRaw rnd = Returns v c' \<or>
         RequestJSON unmarshal env c requestRaw rnd = Blocks c'"
  shows "later c c'"
proof (cases "unmarshal requestRaw")
  case (Inl err)
  then show ?thesis using assms(2) by (simp add: RequestJSON_def later.stay)
next
  case (Inr request)
  show ?thesis
  proof (rule later_requestSend[where env = env and n = 1 and v = v])
    show "responseChan (request\<lparr>reqRequestID := rnd, responseChan := next_chan c\<rparr>) = next_chan c"
      by simp
    show "requestSend env (snd (make_responseChan 1 c))
            (request\<lparr>reqRequestID := rnd, responseChan := next_chan c\<rparr>) = Returns v c' \<or>
          requestSend env (snd (make_responseChan 1 c))
            (request\<lparr>reqRequestID := rnd, responseChan := next_chan c\<rparr>) = Blocks c'"
      using assms(2) Inr by (simp add: RequestJSON_def make_responseChan_def)
  qed (rule assms(1))
qed

lemma later_Request:
  assumes "\<And>x y. env x = Inr y \<Longrightarrow> later x y"
    and "Request env c command rnd = Returns v c' \<or> Request env c command rnd = Blocks c'"
  shows "later c c'"
  by (rule later_requestInternal[where env = env and async = True])
     (use assms in \<open>simp_all add: Request_def\<close>)

lemma later_RegisterListener:
  assumes env: "\<And>x y. env x = Inr y \<Longrightarrow> later x y"
    and res: "RegisterListener env c event listener rnd = Returns v c' \<or>
         RegisterListener env c event listener rnd = Blocks c'"
  shows "later c c'"
proof -
  have store: "later c c1 \<Longrightarrow>
      (case listeners c1 of None \<Rightarrow> Panics ''assignment to entry in nil map''
       | Some m \<Rightarrow> Returns None (c1\<lparr>listeners := Some (m(event \<mapsto> listener))\<rparr>)) = Returns v c'
      \<Longrightarrow> later c c'" for c1
    by (auto split: option.splits intro: later.set_listeners)
  show ?thesis
  proof (cases "listeners c")
    case None
    then show ?thesis using res
      by (auto simp: RegisterListener_def intro: later.set_listeners later.stay)
  next
    case (Some m)
    show ?thesis
    proof (cases "m event")
      case (Some a)
      then show ?thesis using res \<open>listeners c = Some m\<close>
        by (auto simp: RegisterListener_def intro: later.set_listeners later.stay)
    next
      case None
      let ?rq = "Request env c [JString ''enable_event'', JString event] rnd"
      show ?thesis
      proof (cases ?rq)
        case (Returns x c1)
        have l: "later c c1"
          by (rule later_Request[where env = env, OF _ disjI1]) (use env Returns in simp_all)
        show ?thesis
        proof (cases x)
          case (Inl err)
          then show ?thesis
            using res \<open>listeners c = Some m\<close> None Returns l by (simp add: RegisterListener_def)
        next
          case (Inr val)
          have "(case listeners c1 of None \<Rightarrow> Panics ''assignment to entry in nil map''
                 | Some m \<Rightarrow> Returns None (c1\<lparr>listeners := Some (m(event \<mapsto> listener))\<rparr>))
                = Returns v c'"
            using res \<open>listeners c = Some m\<close> None Returns Inr
            by (simp add: RegisterListener_def split: option.splits)
          with l show ?thesis by (rule store)
        qed
      next
        case (Panics p)
        then show ?thesis
          using res \<open>listeners c = Some m\<close> None by (simp add: RegisterListener_def)
      next
        case (Blocks c1)
        have "later c c1"
          by (rule later_Request[where env = env, OF _ disjI2]) (use env Blocks in simp_all)
        then show ?thesis
          using res \<open>listeners c = Some m\<close> None Blocks by (simp add: RegisterListener_def)
      qed
    qed
  qed
qed

lemma later_ObserveProperty:
  assumes env: "\<And>x y. env x = Inr y \<Longrightarrow> later x y"
    and res: "ObserveProperty env c property observer rnd_id rnd = Returns v c' \<or>
         ObserveProperty env c property observer rnd_id rnd = Blocks c'"
  shows "later c c'"
proof -
  let ?rq = "Request env c [JString ''observe_property'', JNumber rnd_id, JString property] rnd"
  show ?thesis
  proof (cases ?rq)
    case (Returns x c1)
    have l: "later c c1"
      by (rule later_Request[where env = env, OF _ disjI1]) (use env Returns in simp_all)
    then show ?thesis
      using res Returns
      by (cases x) (auto simp: ObserveProperty_def Let_def intro: later.set_observers)
  next
    case (Panics p)
    then show ?thesis using res by (simp add: ObserveProperty_def)
  next
    case (Blocks c1)
    have "later c c1"
      by (rule later_Request[where env = env, OF _ disjI2]) (use env Blocks in simp_all)
    then show ?thesis using res Blocks by (simp add: ObserveProperty_def)
  qed
qed

lemma later_UnregisterListener: "later c (UnregisterListener c event)"
  by (simp add: UnregisterListener_def later.spawn later.set_listeners later.stay)

lemma later_UnobserveProperty: "later c (UnobserveProperty c ident)"
  by (simp add: UnobserveProperty_def later.spawn later.set_observers later.stay)

section \<open>The writer\<close>

lemma publishError_sink: "publishError c err = c\<lparr>trace := trace c @ sink c err\<rparr>"
  by (simp add: publishError_def sink_def emit_def split: option.splits)

lemma sink_fields [simp]:
  "sink (emit e c) err = sink c err"
  "sink (c\<lparr>requests := rq\<rparr>) err = sink c err"
  "sink (c\<lparr>trace := t\<rparr>) err = sink c err"
  by (simp_all add: sink_def emit_def)

lemma write_one_trace:
  "marshal req = Inr body \<Longrightarrow>
   trace (write_one marshal c req ws) =
     trace c @ RegistryInsert (reqRequestID req) (responseChan req) #
       (case fst ws of
          WriteErr n e \<Rightarrow> ConnWrite (take n body) # sink c e
        | WriteOk \<Rightarrow>
            ConnWrite body #
              (case snd ws of
                 WriteErr n e \<Rightarrow> ConnWrite (take n [CHR 0x0A]) # sink c e
               | WriteOk \<Rightarrow> [ConnWrite [CHR 0x0A]]))"
  by (simp add: write_one_def conn_Write_def publishError_sink Let_def emit_def
        split: write_result.splits)

lemma write_loop_chans: "write_loop marshal c ws = (st, c') \<Longrightarrow> chans c' = chans c"
proof (induction ws arbitrary: c)
  case Nil
  then show ?case by (auto split: list.splits if_splits)
next
  case (Cons w ws)
  show ?case
  proof (cases "buf (receiver c)")
    case Nil
    then show ?thesis using Cons.prems by (auto split: if_splits)
  next
    case (Cons req rest)
    then have "chans c' =
        chans (write_one marshal (c\<lparr>receiver := (receiver c)\<lparr>buf := rest\<rparr>\<rparr>) req w)"
      using Cons.prems by (intro Cons.IH) simp
    then show ?thesis by (simp add: write_one_fields)
  qed
qed

lemma write_loop_drains:
  "length (buf (receiver c)) \<le> length ws \<Longrightarrow>
     fst (write_loop marshal c ws) \<noteq> Running \<and>
     buf (receiver (snd (write_loop marshal c ws))) = []"
proof (induction ws arbitrary: c)
  case Nil
  then show ?case by simp
next
  case (Cons w ws)
  show ?case
  proof (cases "buf (receiver c)")
    case Nil
    then show ?thesis by simp
  next
    case (Cons req rest)
    let ?c1 = "write_one marshal (c\<lparr>receiver := (receiver c)\<lparr>buf := rest\<rparr>\<rparr>) req w"
    have "length (buf (receiver ?c1)) \<le> length ws"
      using Cons Cons.prems by (simp add: write_one_fields)
    then show ?thesis using Cons.IH[of ?c1] Cons by simp
  qed
qed

text \<open>
  C3. In a turn of the writer the request enters the registry before any byte of it is
  written: the trace of the turn is the insertion, then the write of the body, then the
  write of the newline. A failure to marshal is published and leaves the registry and the
  connection alone; a failed write is published after it; no turn touches a reply
  channel, and neither does the loop, which goes through the whole queue whatever fails.
\<close>

theorem write_one_order:
  "(\<forall>err. marshal req = Inl err \<longrightarrow>
      write_one marshal c req ws = c\<lparr>trace := trace c @ sink c err\<rparr>) \<and>
   (\<forall>body. marshal req = Inr body \<longrightarrow>
      requests (write_one marshal c req ws) =
        Some ((case requests c of None \<Rightarrow> Map.empty | Some m \<Rightarrow> m)(reqRequestID req \<mapsto> req)) \<and>
      trace (write_one marshal c req ws) =
        trace c @ RegistryInsert (reqRequestID req) (responseChan req) #
          (case fst ws of
             WriteErr n e \<Rightarrow> ConnWrite (take n body) # sink c e
           | WriteOk \<Rightarrow>
               ConnWrite body #
                 (case snd ws of
                    WriteErr n e \<Rightarrow> ConnWrite (take n [CHR 0x0A]) # sink c e
                  | WriteOk \<Rightarrow> [ConnWrite [CHR 0x0A]]))) \<and>
   chans (write_one marshal c req ws) = chans c \<and>
   chans (snd (write_loop marshal c wss)) = chans c \<and>
   (length (buf (receiver c)) \<le> length wss \<longrightarrow>
      fst (write_loop marshal c wss) \<noteq> Running \<and>
      buf (receiver (snd (write_loop marshal c wss))) = [])"
proof (intro conjI allI impI)
  fix err assume "marshal req = Inl err"
  then show "write_one marshal c req ws = c\<lparr>trace := trace c @ sink c err\<rparr>"
    by (simp add: write_one_def publishError_sink)
next
  fix body assume "marshal req = Inr body"
  then show "requests (write_one marshal c req ws) =
        Some ((case requests c of None \<Rightarrow> Map.empty | Some m \<Rightarrow> m)(reqRequestID req \<mapsto> req))"
    by (simp add: write_one_requests)
next
  fix body assume "marshal req = Inr body"
  then show "trace (write_one marshal c req ws) =
        trace c @ RegistryInsert (reqRequestID req) (responseChan req) #
          (case fst ws of
             WriteErr n e \<Rightarrow> ConnWrite (take n body) # sink c e
           | WriteOk \<Rightarrow>
               ConnWrite body #
                 (case snd ws of
                    WriteErr n e \<Rightarrow> ConnWrite (take n [CHR 0x0A]) # sink c e
                  | WriteOk \<Rightarrow> [ConnWrite [CHR 0x0A]]))"
    by (rule write_one_trace)
next
  show "chans (write_one marshal c req ws) = chans c"
    by (simp add: write_one_fields)
next
  show "chans (snd (write_loop marshal c wss)) = chans c"
    by (rule write_loop_chans[of marshal c wss "fst (write_loop marshal c wss)"]) simp
next
  assume "length (buf (receiver c)) \<le> length wss"
  then show "fst (write_loop marshal c wss) \<noteq> Running"
    and "buf (receiver (snd (write_loop marshal c wss))) = []"
    using write_loop_drains[of c wss marshal] by simp_all
qed

theorem write_one_order_witness:
  "write_one (\<lambda>_. Inl (JSONError ''json: unsupported type'')) (connectInternal (Some 1))
      \<lparr>Command = [GoFunc 0], reqRequestID = 7, Async = True, responseChan = 0\<rparr> (WriteOk, WriteOk)
     = (connectInternal (Some 1))\<lparr>trace := [OnError 1 (JSONError ''json: unsupported type'')]\<rparr> \<and>
   trace (write_one (\<lambda>_. Inr ''{}'') (connectInternal (Some 1))
      \<lparr>Command = [], reqRequestID = 7, Async = True, responseChan = 0\<rparr>
      (WriteOk, WriteErr 0 (IOError ''broken pipe'')))
     = [RegistryInsert 7 0, ConnWrite ''{}'', ConnWrite [], OnError 1 (IOError ''broken pipe'')] \<and>
   fst (write_loop (\<lambda>_. Inr ''{}'') (connectInternal None) [(WriteOk, WriteOk)]) \<noteq> Running"
  using write_one_order [of "\<lambda>_. Inl (JSONError ''json: unsupported type'')"
      "\<lparr>Command = [GoFunc 0], reqRequestID = 7, Async = True, responseChan = 0\<rparr>"
      "connectInternal (Some 1)" "(WriteOk, WriteOk)" "[]"]
    write_one_order [of "\<lambda>_. Inr ''{}''"
      "\<lparr>Command = [], reqRequestID = 7, Async = True, responseChan = 0\<rparr>"
      "connectInternal (Some 1)" "(WriteOk, WriteErr 0 (IOError ''broken pipe''))" "[]"]
    write_one_order [of "\<lambda>_. Inr ''{}''" _ "connectInternal None" _ "[(WriteOk, WriteOk)]"]
  by (simp add: connectInternal_def sink_def make_chan_def)

section \<open>The dispatcher\<close>

lemma dispatch_unmatched:
  "Event response = [] \<Longrightarrow> \<forall>request. \<not> registered c (RequestID response) request
     \<Longrightarrow> dispatch c response = Inr c"
  by (cases "requests c") (auto simp: dispatch_def registered_def split: option.splits)

lemma dispatch_matched:
  assumes inv: "reply_inv c" and ev: "Event response = []"
    and reg: "registered c (RequestID response) request"
  shows "\<exists>c'. dispatch c response = Inr c' \<and>
           chans c' (responseChan request) =
             (chans c (responseChan request))\<lparr>buf := [response], chan_closed := True\<rparr> \<and>
           (\<forall>ch. ch \<noteq> responseChan request \<longrightarrow> chans c' ch = chans c ch) \<and>
           (\<forall>q. \<not> registered c' (RequestID response) q) \<and>
           (\<forall>k q. k \<noteq> RequestID response \<longrightarrow> registered c' k q = registered c k q)"
proof -
  obtain m where m: "requests c = Some m" and q: "m (RequestID response) = Some request"
    using reg by (auto simp: registered_def split: option.splits)
  have "pending_ok c request" using inv reg by (rule reply_invD_reg)
  then have "dispatch c response =
      Inr (emit (RegistryDelete (RequestID response) (responseChan request))
            (c\<lparr>chans := (chans c)(responseChan request :=
                   (chans c (responseChan request))\<lparr>buf := [response], chan_closed := True\<rparr>),
                requests := Some (m(RequestID response := None))\<rparr>))"
    using m q ev by (simp add: dispatch_def chan_send_def chan_close_def pending_ok_def)
  then show ?thesis
    using m by (simp add: emit_def registered_def)
qed

text \<open>
  C1. In every state the client can reach, a reply frame (empty event) whose id is
  registered is put on the channel of that request, which then holds exactly this reply
  and is closed, and the entry is gone in the same step; no other channel changes. A
  second frame with the same id, and a frame whose id is not registered, change nothing.
  Two registered ids never share a channel, and no channel ever holds more than one
  reply.
\<close>

theorem dispatch_reply_once:
  assumes "later (connectInternal onErr) c" and "Event response = []"
  shows "(\<forall>request. registered c (RequestID response) request \<longrightarrow>
            (\<exists>c'. dispatch c response = Inr c' \<and>
                  chans c' (responseChan request) =
                    (chans c (responseChan request))\<lparr>buf := [response], chan_closed := True\<rparr> \<and>
                  (\<forall>ch. ch \<noteq> responseChan request \<longrightarrow> chans c' ch = chans c ch) \<and>
                  (\<forall>q. \<not> registered c' (RequestID response) q) \<and>
                  (\<forall>k q. k \<noteq> RequestID response \<longrightarrow> registered c' k q = registered c k q) \<and>
                  (\<forall>response2. Event response2 = [] \<and> RequestID response2 = RequestID response
                     \<longrightarrow> dispatch c' response2 = Inr c'))) \<and>
         ((\<forall>request. \<not> registered c (RequestID response) request) \<longrightarrow>
            dispatch c response = Inr c) \<and>
         (\<forall>k q k' q'. registered c k q \<and> registered c k' q' \<and> responseChan q = responseChan q'
            \<longrightarrow> k = k') \<and>
         (\<forall>ch. length (buf (chans c ch)) \<le> 1)"
proof -
  have inv: "reply_inv c"
    using assms(1) reply_inv_connectInternal by (rule reply_inv_later)
  show ?thesis
  proof (intro conjI allI impI)
    fix request assume reg: "registered c (RequestID response) request"
    from dispatch_matched[OF inv assms(2) reg] obtain c' where
      d: "dispatch c response = Inr c'"
      and ch: "chans c' (responseChan request) =
             (chans c (responseChan request))\<lparr>buf := [response], chan_closed := True\<rparr>"
      and others: "\<forall>ch. ch \<noteq> responseChan request \<longrightarrow> chans c' ch = chans c ch"
      and gone: "\<forall>q. \<not> registered c' (RequestID response) q"
      and rest: "\<forall>k q. k \<noteq> RequestID response \<longrightarrow> registered c' k q = registered c k q"
      by blast
    have again: "\<forall>response2. Event response2 = [] \<and> RequestID response2 = RequestID response
        \<longrightarrow> dispatch c' response2 = Inr c'"
      using gone by (auto intro: dispatch_unmatched)
    show "\<exists>c'. dispatch c response = Inr c' \<and>
            chans c' (responseChan request) =
              (chans c (responseChan request))\<lparr>buf := [response], chan_closed := True\<rparr> \<and>
            (\<forall>ch. ch \<noteq> responseChan request \<longrightarrow> chans c' ch = chans c ch) \<and>
            (\<forall>q. \<not> registered c' (RequestID response) q) \<and>
            (\<forall>k q. k \<noteq> RequestID response \<longrightarrow> registered c' k q = registered c k q) \<and>
            (\<forall>response2. Event response2 = [] \<and> RequestID response2 = RequestID response
               \<longrightarrow> dispatch c' response2 = Inr c')"
      using d ch others gone rest again by blast
  next
    assume "\<forall>request. \<not> registered c (RequestID response) request"
    with assms(2) show "dispatch c response = Inr c" by (rule dispatch_unmatched)
  next
    fix k q k' q'
    assume "registered c k q \<and> registered c k' q' \<and> responseChan q = responseChan q'"
    then show "k = k'" using reply_invD_inj[OF inv] by blast
  next
    fix ch show "length (buf (chans c ch)) \<le> 1" by (rule reply_invD_length[OF inv])
  qed
qed

section \<open>The wire example, step by step\<close>

lemma marshal_volume_request:
  \<open>marshal_ipcRequest volume_request =
     Inr ''{"command":["get_property","volume"],"request_id":42,"async":false}''\<close>
  by code_simp

lemma unmarshal_volume_reply:
  \<open>unmarshal_ipcResponse (''{"error":"success","data":50,"request_id":42}'' @ [CHR 0x0A])
     = Inr volume_reply\<close>
  by code_simp

lemma later_queued_client: "later (connectInternal None) queued_client"
  unfolding queued_client_def
  by (rule later.hand_off[OF later.stay])
     (simp_all add: connectInternal_def volume_request_def chan_send_def make_chan_def)

lemma queued_client_fields:
  "buf (receiver queued_client) = [volume_request]"
  "requests queued_client = None"
  "trace queued_client = []"
  "onError queued_client = None"
  "closed queued_client = False"
  "chans queued_client = (\<lambda>_. make_chan 0)"
  by (auto simp: queued_client_def connectInternal_def make_responseChan_def)

lemma sent_client_eq:
  "sent_client =
     write_one marshal_ipcRequest
       (queued_client\<lparr>receiver := (receiver queued_client)\<lparr>buf := []\<rparr>\<rparr>)
       volume_request (WriteOk, WriteOk)"
  by (simp add: sent_client_def queued_client_fields write_one_fields)

lemma later_sent_client: "later (connectInternal None) sent_client"
proof -
  have "later queued_client sent_client"
    unfolding sent_client_def
    using later_write_loop[of marshal_ipcRequest queued_client "[(WriteOk, WriteOk)]"
        "fst (write_loop marshal_ipcRequest queued_client [(WriteOk, WriteOk)])"
        "snd (write_loop marshal_ipcRequest queued_client [(WriteOk, WriteOk)])"]
    by simp
  then show ?thesis using later_queued_client by (rule later_trans)
qed

lemma sent_client_fields:
  "requests sent_client = Some [42 \<mapsto> volume_request]"
  "chans sent_client = (\<lambda>_. make_chan 0)"
  "buf (receiver sent_client) = []"
  \<open>trace sent_client =
     [RegistryInsert 42 0,
      ConnWrite ''{"command":["get_property","volume"],"request_id":42,"async":false}'',
      ConnWrite [CHR 0x0A]]\<close>
proof -
  show "requests sent_client = Some [42 \<mapsto> volume_request]"
    by (simp add: sent_client_eq write_one_requests marshal_volume_request queued_client_fields)
       (simp add: volume_request_def)
  show "chans sent_client = (\<lambda>_. make_chan 0)"
    by (simp add: sent_client_eq write_one_fields queued_client_fields)
  show "buf (receiver sent_client) = []"
    by (simp add: sent_client_eq write_one_fields)
  show \<open>trace sent_client =
     [RegistryInsert 42 0,
      ConnWrite ''{"command":["get_property","volume"],"request_id":42,"async":false}'',
      ConnWrite [CHR 0x0A]]\<close>
    by (simp add: sent_client_eq queued_client_fields
          write_one_trace[where marshal = marshal_ipcRequest, OF marshal_volume_request])
       (simp add: volume_request_def)
qed

lemma registered_sent_client: "registered sent_client 42 volume_request"
  by (simp add: registered_def sent_client_fields)

theorem dispatch_reply_once_witness:
  "later (connectInternal None) sent_client \<and> Event volume_reply = [] \<and>
   registered sent_client (RequestID volume_reply) volume_request \<and>
   (\<exists>c'. dispatch sent_client volume_reply = Inr c' \<and>
         chans c' 0 = \<lparr>buf = [volume_reply], cap = 0, chan_closed = True\<rparr> \<and>
         dispatch c' volume_reply = Inr c')"
proof -
  have ev: "Event volume_reply = []" and rid: "RequestID volume_reply = 42"
    by (simp_all add: volume_reply_def)
  have reg: "registered sent_client (RequestID volume_reply) volume_request"
    using registered_sent_client rid by simp
  from dispatch_reply_once[OF later_sent_client ev] reg
  obtain c' where d: "dispatch sent_client volume_reply = Inr c'"
    and ch: "chans c' (responseChan volume_request) =
      (chans sent_client (responseChan volume_request))\<lparr>buf := [volume_reply], chan_closed := True\<rparr>"
    and again: "\<forall>response2. Event response2 = [] \<and> RequestID response2 = RequestID volume_reply
        \<longrightarrow> dispatch c' response2 = Inr c'"
    by blast
  have "chans c' 0 = \<lparr>buf = [volume_reply], cap = 0, chan_closed = True\<rparr>"
    using ch by (simp add: volume_request_def sent_client_fields make_chan_def)
  moreover have "dispatch c' volume_reply = Inr c'"
    using again ev by blast
  ultimately show ?thesis
    using later_sent_client ev reg d by blast
qed

section \<open>Close\<close>

text \<open>
  C5. Once \<open>Close\<close> has returned, in every later state of the client \<open>Request\<close> and
  \<open>RequestSync\<close> return \<open>ErrClosed\<close> at once: the environment is not run, and the state
  they return differs from the one they got only by the channel they made, so the trace
  (and with it the connection), the registry and the queue of the writer are the same.
\<close>

theorem closed_Request:
  assumes "Close c0 = Inr c1" and "later c1 c"
  shows "Request env c command rnd = Returns (Inl ErrClosed) (snd (make_responseChan 0 c)) \<and>
         RequestSync env c command rnd = Returns (Inl ErrClosed) (snd (make_responseChan 0 c)) \<and>
         trace (snd (make_responseChan 0 c)) = trace c \<and>
         requests (snd (make_responseChan 0 c)) = requests c \<and>
         receiver (snd (make_responseChan 0 c)) = receiver c"
proof -
  have "closed c1" using assms(1) by (rule closed_Close)
  with assms(2) have "closed c" by (rule closed_later)
  then show ?thesis
    by (simp add: Request_def RequestSync_def requestInternal_def requestSend_def
          make_responseChan_def)
qed

theorem closed_Request_witness:
  "Close sent_client = Inr (emit ConnClose (sent_client\<lparr>closed := True,
      receiver := (receiver sent_client)\<lparr>chan_closed := True\<rparr>\<rparr>)) \<and>
   (\<exists>c. later (emit ConnClose (sent_client\<lparr>closed := True,
      receiver := (receiver sent_client)\<lparr>chan_closed := True\<rparr>\<rparr>)) c \<and>
     returned (Request (\<lambda>x. Inr x) c [JString ''get_property'', JString ''volume''] 43)
       = Some (Inl ErrClosed))"
proof -
  let ?c1 = "emit ConnClose (sent_client\<lparr>closed := True,
      receiver := (receiver sent_client)\<lparr>chan_closed := True\<rparr>\<rparr>)"
  have ncl: "\<not> chan_closed (receiver sent_client)"
    by (simp add: sent_client_eq write_one_fields queued_client_def)
  then have cl: "Close sent_client = Inr ?c1"
    by (simp add: Close_def Let_def chan_close_def)
  have l: "later ?c1 (publishError ?c1 (IOError ''use of closed network connection''))"
    by (rule later.report[OF later.stay])
  show ?thesis
    using cl l closed_Request[OF cl l, of "\<lambda>x. Inr x" "[JString ''get_property'', JString ''volume'']" 43]
    by (auto simp: returned_def)
qed

section \<open>Property changes\<close>

text \<open>
  C8. A frame whose event is \<open>property-change\<close> is looked up in the observers by its
  \<open>id\<close> field (\<open>ID\<close>, which the decoder fills from the key \<open>id\<close>). A registered observer
  is started in a new goroutine on the frame's data; otherwise the frame is dropped. In
  both cases \<open>dispatch\<close> returns without a panic and the state is the same but for the
  trace, so that no registration changes.
\<close>

theorem dispatch_property_change:
  assumes "Event response = ''property-change''"
  shows "(\<forall>m observer. observers c = Some m \<and> m (ID response) = Some observer \<longrightarrow>
            dispatch c response = Inr (emit (GoObserver observer (Data response)) c)) \<and>
         (observers c = None \<or> (\<exists>m. observers c = Some m \<and> m (ID response) = None) \<longrightarrow>
            dispatch c response = Inr c) \<and>
         (\<exists>c'. dispatch c response = Inr c' \<and> observers c' = observers c \<and>
               listeners c' = listeners c \<and> requests c' = requests c \<and> chans c' = chans c)"
  using assms
  by (auto simp: dispatch_def emit_def split: option.splits)

theorem dispatch_property_change_witness:
  \<open>unmarshal_ipcResponse ''{"event":"property-change","id":7,"name":"volume","data":50}''
     = Inr \<lparr>Error = [], Data = JNumber 50, RequestID = 0, Event = ''property-change'',
            EventData = [(''name'', JString ''volume'')], ID = 7\<rparr> \<and>
   dispatch ((connectInternal None)\<lparr>observers := Some [7 \<mapsto> 3]\<rparr>)
     \<lparr>Error = [], Data = JNumber 50, RequestID = 0, Event = ''property-change'',
      EventData = [(''name'', JString ''volume'')], ID = 7\<rparr>
     = Inr (emit (GoObserver 3 (JNumber 50)) ((connectInternal None)\<lparr>observers := Some [7 \<mapsto> 3]\<rparr>)) \<and>
   dispatch ((connectInternal None)\<lparr>observers := Some [8 \<mapsto> 3]\<rparr>)
     \<lparr>Error = [], Data = JNumber 50, RequestID = 0, Event = ''property-change'',
      EventData = [(''name'', JString ''volume'')], ID = 7\<rparr>
     = Inr ((connectInternal None)\<lparr>observers := Some [8 \<mapsto> 3]\<rparr>)\<close>
proof -
  have dec: \<open>unmarshal_ipcResponse ''{"event":"property-change","id":7,"name":"volume","data":50}''
     = Inr \<lparr>Error = [], Data = JNumber 50, RequestID = 0, Event = ''property-change'',
            EventData = [(''name'', JString ''volume'')], ID = 7\<rparr>\<close>
    by code_simp
  show ?thesis
    using dec
      dispatch_property_change [of "\<lparr>Error = [], Data = JNumber 50, RequestID = 0,
        Event = ''property-change'', EventData = [(''name'', JString ''volume'')], ID = 7\<rparr>"
        "(connectInternal None)\<lparr>observers := Some [7 \<mapsto> 3]\<rparr>"]
      dispatch_property_change [of "\<lparr>Error = [], Data = JNumber 50, RequestID = 0,
        Event = ''property-change'', EventData = [(''name'', JString ''volume'')], ID = 7\<rparr>"
        "(connectInternal None)\<lparr>observers := Some [8 \<mapsto> 3]\<rparr>"]
    by simp
qed

section \<open>Requests given as JSON\<close>

text \<open>
  C10. \<open>RequestJSON\<close> on an input that does not decode returns the decode error and
  leaves the client as it was. On an input that decodes to a request it makes a new
  channel of capacity one and calls \<open>requestSend\<close> on the request with its id replaced by
  the random number and its channel by the new one: on an open client left alone by the
  other goroutines, the call waits with exactly this request at the end of the queue.
\<close>

theorem RequestJSON_fresh_id:
  "(\<forall>err. unmarshal requestRaw = Inl err \<longrightarrow>
      RequestJSON unmarshal env c requestRaw rnd = Returns (Inl err) c) \<and>
   (\<forall>request. unmarshal requestRaw = Inr request \<longrightarrow>
      RequestJSON unmarshal env c requestRaw rnd =
        requestSend env (snd (make_responseChan 1 c))
          (request\<lparr>reqRequestID := rnd, responseChan := next_chan c\<rparr>) \<and>
      chans (snd (make_responseChan 1 c)) (next_chan c) = make_chan 1 \<and>
      (\<not> closed c \<and> \<not> chan_closed (receiver c) \<longrightarrow>
         RequestJSON unmarshal (\<lambda>x. Inr x) c requestRaw rnd =
           Blocks ((snd (make_responseChan 1 c))
             \<lparr>receiver := (receiver c)\<lparr>buf := buf (receiver c) @
                [request\<lparr>reqRequestID := rnd, responseChan := next_chan c\<rparr>]\<rparr>\<rparr>)))"
  by (auto simp: RequestJSON_def make_responseChan_def requestSend_def chan_send_def
        make_chan_def Let_def)

theorem RequestJSON_fresh_id_witness:
  "RequestJSON (\<lambda>_. Inl (JSONError ''unexpected end of JSON input'')) (\<lambda>x. Inr x)
      (connectInternal None) ''{'' 99
     = Returns (Inl (JSONError ''unexpected end of JSON input'')) (connectInternal None) \<and>
   RequestJSON (\<lambda>_. Inr (volume_request\<lparr>reqRequestID := 5\<rparr>)) (\<lambda>x. Inr x)
      (connectInternal None) ''{}'' 99
     = Blocks ((snd (make_responseChan 1 (connectInternal None)))
         \<lparr>receiver := (receiver (connectInternal None))\<lparr>buf :=
            [volume_request\<lparr>reqRequestID := 99, responseChan := 0\<rparr>]\<rparr>\<rparr>)"
proof -
  have c0: "\<not> closed (connectInternal None)" "\<not> chan_closed (receiver (connectInternal None))"
    "buf (receiver (connectInternal None)) = []" "next_chan (connectInternal None) = 0"
    by (simp_all add: connectInternal_def make_chan_def)
  have a: "RequestJSON (\<lambda>_. Inl (JSONError ''unexpected end of JSON input'')) (\<lambda>x. Inr x)
      (connectInternal None) ''{'' 99
     = Returns (Inl (JSONError ''unexpected end of JSON input'')) (connectInternal None)"
    using RequestJSON_fresh_id [of "\<lambda>_. Inl (JSONError ''unexpected end of JSON input'')" "''{''"
          "\<lambda>x. Inr x" "connectInternal None" 99]
    by blast
  have b: "RequestJSON (\<lambda>_. Inr (volume_request\<lparr>reqRequestID := 5\<rparr>)) (\<lambda>x. Inr x)
      (connectInternal None) ''{}'' 99
     = Blocks ((snd (make_responseChan 1 (connectInternal None)))
         \<lparr>receiver := (receiver (connectInternal None))\<lparr>buf := buf (receiver (connectInternal None)) @
            [volume_request\<lparr>reqRequestID := 5, reqRequestID := 99,
               responseChan := next_chan (connectInternal None)\<rparr>]\<rparr>\<rparr>)"
    using RequestJSON_fresh_id [of "\<lambda>_. Inr (volume_request\<lparr>reqRequestID := 5\<rparr>)" "''{}''"
          "\<lambda>x. Inr x" "connectInternal None" 99] c0(1,2)
    by blast
  show ?thesis
    using a b c0 by simp
qed

section \<open>The reader\<close>

text \<open>
  C7. One turn of the reader. On \<open>io.EOF\<close> it calls \<open>Close\<close> and returns, whatever is
  still to be read: on a client whose queue is open, the flag is set, the queue closed and
  the connection closed. Any other read error is published and the loop reads on. A line
  that does not decode is published and the loop reads on from the same state, nothing
  having been dispatched. A line that decodes is given to \<open>dispatch\<close>, and the loop reads
  on from the state \<open>dispatch\<close> leaves.
\<close>

theorem read_iteration:
  "read unmarshal c (ReadErr EOF # rs) =
     (case Close c of Inl p \<Rightarrow> Inl p | Inr c' \<Rightarrow> Inr (Returned, c')) \<and>
   (\<not> chan_closed (receiver c) \<longrightarrow>
      read unmarshal c (ReadErr EOF # rs) =
        Inr (Returned, emit ConnClose
               (c\<lparr>closed := True, receiver := (receiver c)\<lparr>chan_closed := True\<rparr>\<rparr>))) \<and>
   (err \<noteq> EOF \<longrightarrow>
      read unmarshal c (ReadErr err # rs) = read unmarshal (c\<lparr>trace := trace c @ sink c err\<rparr>) rs) \<and>
   (\<forall>e. unmarshal data = Inl e \<longrightarrow>
      read unmarshal c (Line data # rs) = read unmarshal (c\<lparr>trace := trace c @ sink c e\<rparr>) rs) \<and>
   (\<forall>response. unmarshal data = Inr response \<longrightarrow>
      read unmarshal c (Line data # rs) =
        (case dispatch c response of Inl p \<Rightarrow> Inl p | Inr c' \<Rightarrow> read unmarshal c' rs))"
  by (simp add: publishError_sink Close_def Let_def chan_close_def)

theorem read_iteration_witness:
  "read unmarshal_ipcResponse (connectInternal (Some 1))
      [Line ''not json'', ReadErr (IOError ''timeout''), ReadErr EOF, Line ''{}'']
     = Inr (Returned,
         (connectInternal (Some 1))
           \<lparr>closed := True,
            receiver := (receiver (connectInternal (Some 1)))\<lparr>chan_closed := True\<rparr>,
            trace := [OnError 1 (JSONError ''invalid JSON''), OnError 1 (IOError ''timeout''),
                      ConnClose]\<rparr>)"
proof -
  let ?c0 = "connectInternal (Some 1)"
  let ?c1 = "?c0\<lparr>trace := [OnError 1 (JSONError ''invalid JSON'')]\<rparr>"
  let ?c2 = "?c0\<lparr>trace := [OnError 1 (JSONError ''invalid JSON''), OnError 1 (IOError ''timeout'')]\<rparr>"
  have dec: "unmarshal_ipcResponse ''not json'' = Inl (JSONError ''invalid JSON'')"
    by code_simp
  have s0: "trace ?c0 = []" "sink ?c0 e = [OnError 1 e]" "\<not> chan_closed (receiver ?c0)" for e
    by (simp_all add: connectInternal_def sink_def make_chan_def)
  have "read unmarshal_ipcResponse ?c0
      [Line ''not json'', ReadErr (IOError ''timeout''), ReadErr EOF, Line ''{}'']
      = read unmarshal_ipcResponse ?c1 [ReadErr (IOError ''timeout''), ReadErr EOF, Line ''{}'']"
    using read_iteration [of unmarshal_ipcResponse ?c0 _ _ "''not json''",
        THEN conjunct2, THEN conjunct2, THEN conjunct2, THEN conjunct1] dec s0
    by (simp del: read.simps)
  also have "\<dots> = read unmarshal_ipcResponse ?c2 [ReadErr EOF, Line ''{}'']"
    using read_iteration [of unmarshal_ipcResponse ?c1 "[ReadErr EOF, Line ''{}'']"
        "IOError ''timeout''", THEN conjunct2, THEN conjunct2, THEN conjunct1] s0
    by (simp add: sink_def del: read.simps)
  also have "\<dots> = Inr (Returned, emit ConnClose
               (?c2\<lparr>closed := True, receiver := (receiver ?c2)\<lparr>chan_closed := True\<rparr>\<rparr>))"
    using read_iteration [of unmarshal_ipcResponse ?c2 "[Line ''{}'']",
        THEN conjunct2, THEN conjunct1] s0
    by (simp del: read.simps)
  finally show ?thesis by (simp add: emit_def)
qed

section \<open>Listeners\<close>

text \<open>
  C2, at the first listener of a client. \<open>RegisterListener\<close> on a client whose map of
  listeners is still nil makes the map and stores the callback, and asks for nothing:
  whatever the environment, it returns at once with no request queued and an empty trace.
  The same call for a second event does hand \<open>enable_event\<close> to the writer and waits for
  the reply.
\<close>

theorem RegisterListener_first_no_enable:
  "(\<forall>env rnd. RegisterListener env (connectInternal None) ''end-file'' 7 rnd =
      Returns None ((connectInternal None)\<lparr>listeners := Some [''end-file'' \<mapsto> 7]\<rparr>)) \<and>
   buf (receiver ((connectInternal None)\<lparr>listeners := Some [''end-file'' \<mapsto> 7]\<rparr>)) = [] \<and>
   trace ((connectInternal None)\<lparr>listeners := Some [''end-file'' \<mapsto> 7]\<rparr>) = [] \<and>
   (\<exists>c'. RegisterListener (\<lambda>x. Inr x)
            ((connectInternal None)\<lparr>listeners := Some [''end-file'' \<mapsto> 7]\<rparr>) ''seek'' 8 5
          = Blocks c' \<and>
         buf (receiver c') =
           [\<lparr>Command = [JString ''enable_event'', JString ''seek''], reqRequestID = 5,
             Async = True, responseChan = 0\<rparr>])"
  by (simp add: RegisterListener_def connectInternal_def Request_def requestInternal_def
        requestSend_def make_responseChan_def chan_send_def make_chan_def Let_def)

section \<open>Closing twice\<close>

text \<open>
  C6, at a second close. After \<open>Close\<close> has returned, the flag is set and a second
  \<open>Close\<close> panics in \<open>close(c.receiver)\<close>; so does a \<open>Close\<close> after the reader has closed
  the client at the end of the stream.
\<close>

theorem Close_twice_panics:
  "(\<exists>c1. Close (connectInternal None) = Inr c1 \<and> closed c1 \<and>
         Close c1 = Inl ''close of closed channel'') \<and>
   (\<exists>c1. read unmarshal_ipcResponse (connectInternal None) [ReadErr EOF] = Inr (Returned, c1) \<and>
         Close c1 = Inl ''close of closed channel'')"
  by (simp add: Close_def connectInternal_def chan_close_def make_chan_def emit_def Let_def)

section \<open>The round trip on the wire\<close>

lemma dispatch_sent_client:
  "dispatch sent_client volume_reply =
     Inr (emit (RegistryDelete 42 0)
           (sent_client\<lparr>chans := (chans sent_client)
                          (0 := \<lparr>buf = [volume_reply], cap = 0, chan_closed = True\<rparr>),
                        requests := Some Map.empty\<rparr>))"
proof -
  have "Event volume_reply = []" "RequestID volume_reply = 42" "responseChan volume_request = 0"
    by (simp_all add: volume_reply_def volume_request_def)
  then show ?thesis
    by (simp add: dispatch_def sent_client_fields chan_send_def chan_close_def make_chan_def)
qed

lemma serve_queued_client:
  \<open>serve [''{"error":"success","data":50,"request_id":42}'' @ [CHR 0x0A]] queued_client =
     Inr (emit (RegistryDelete 42 0)
           (sent_client\<lparr>chans := (chans sent_client)
                          (0 := \<lparr>buf = [volume_reply], cap = 0, chan_closed = True\<rparr>),
                        requests := Some Map.empty\<rparr>))\<close>
proof -
  have w: "write_loop marshal_ipcRequest queued_client [(WriteOk, WriteOk)]
      = (fst (write_loop marshal_ipcRequest queued_client [(WriteOk, WriteOk)]), sent_client)"
    by (simp add: sent_client_def)
  show ?thesis
    unfolding serve_def
    by (subst queued_client_fields(1), simp only: list.size replicate.simps One_nat_def
          add_0 replicate_Suc plus_nat.simps, subst w)
       (simp add: unmarshal_volume_reply[simplified] dispatch_sent_client)
qed

text \<open>
  C9. The request \<open>get_property volume\<close> with id 42 and \<open>async\<close> false is encoded as the
  line of the specification, and the writer writes it followed by one newline. The reply
  line decodes to a response with error \<open>success\<close> and data 50, and a \<open>RequestSync\<close> whose
  request the writer sends and whose reply line the reader reads returns 50 and no error.
\<close>

theorem wire_round_trip:
  \<open>marshal_ipcRequest volume_request =
     Inr ''{"command":["get_property","volume"],"request_id":42,"async":false}'' \<and>
   trace sent_client =
     [RegistryInsert 42 0,
      ConnWrite ''{"command":["get_property","volume"],"request_id":42,"async":false}'',
      ConnWrite [CHR 0x0A]] \<and>
   unmarshal_ipcResponse (''{"error":"success","data":50,"request_id":42}'' @ [CHR 0x0A])
     = Inr volume_reply \<and>
   returned (RequestSync (serve [''{"error":"success","data":50,"request_id":42}'' @ [CHR 0x0A]])
      (connectInternal None) [JString ''get_property'', JString ''volume''] 42)
     = Some (Inr (JNumber 50))\<close>
proof -
  have handoff: "(snd (make_responseChan 0 (connectInternal None)))
      \<lparr>receiver := \<lparr>buf = [volume_request], cap = 0, chan_closed = False\<rparr>\<rparr> = queued_client"
    by (simp add: queued_client_def)
  have \<open>returned (RequestSync (serve [''{"error":"success","data":50,"request_id":42}'' @ [CHR 0x0A]])
      (connectInternal None) [JString ''get_property'', JString ''volume''] 42)
     = Some (Inr (JNumber 50))\<close>
    unfolding RequestSync_def requestInternal_def requestSend_def
    apply (simp add: make_responseChan_def connectInternal_def chan_send_def make_chan_def)
    apply (simp add: volume_request_def[symmetric]
        handoff[unfolded make_responseChan_def connectInternal_def make_chan_def, simplified])
    apply (simp add: serve_queued_client[simplified] returned_def emit_def)
    apply (simp add: volume_reply_def)
    done
  then show ?thesis
    using marshal_volume_request sent_client_fields(4) unmarshal_volume_reply by simp
qed

end
